theory Spec2Isabelle
  imports Main "HOL-Library.AList" "HOL-Library.Char_ord" "HOL-Library.List_Lexorder"
begin

section \<open>Values, rows and dictionaries\<close>

text \<open>
  The values that photosdb.py stores are Python objects: cells fetched from SQLite
  (NULL, integers, text), booleans, lists of names and datetimes. Numeric cells are
  modelled with integer values; a datetime is the number of seconds it stands for.
\<close>

text \<open>
  Modelled from the spec: the constants \<^verbatim>\<open>_PHOTO_TYPE\<close> and \<^verbatim>\<open>_MOVIE_TYPE\<close> of the module
  \<^verbatim>\<open>_constants\<close>, which is not among the sources at hand. The spec (section 3) gives the kind of
  an asset as one of image, movie or unknown, the last one stored as the absent value: the
  two constants are two distinct values, both different from None.
\<close>

datatype kind = Image | Movie

datatype pyval =
    PNone
  | PInt int
  | PStr string
  | PBool bool
  | PDate int
  | PKind kind
  | PList "pyval list"

definition PHOTO_TYPE :: pyval where
  "PHOTO_TYPE = PKind Image"

definition MOVIE_TYPE :: pyval where
  "MOVIE_TYPE = PKind Movie"

text \<open>
  Modelled from the spec: the constant \<^verbatim>\<open>_UNKNOWN_PERSON\<close> of the module \<^verbatim>\<open>_constants\<close>, which
  is not among the sources at hand; the spec (section 3) calls it an explicit
  "unknown person" placeholder, used when the name is empty but a face was detected.
\<close>

definition UNKNOWN_PERSON :: pyval where
  "UNKNOWN_PERSON = PStr ''_UNKNOWN_''"

text \<open>Python truthiness (\<^verbatim>\<open>if x\<close>, \<^verbatim>\<open>x and y\<close>, \<^verbatim>\<open>not x\<close>); never applied to a kind.\<close>

fun truthy :: "pyval \<Rightarrow> bool" where
  "truthy PNone = False"
| "truthy (PInt n) = (n \<noteq> 0)"
| "truthy (PStr s) = (s \<noteq> [])"
| "truthy (PBool b) = b"
| "truthy (PDate d) = True"
| "truthy (PKind k) = True"
| "truthy (PList xs) = (xs \<noteq> [])"

datatype error = KeyError | TypeError

text \<open>A fetched row: \<open>row i\<close> is the source's \<^verbatim>\<open>row[i]\<close>.\<close>

type_synonym row = "nat \<Rightarrow> pyval"

definition cells :: "pyval list \<Rightarrow> row" where
  "cells vs = (\<lambda>i. if i < length vs then vs ! i else PNone)"

text \<open>
  A Python dict keeps its keys in insertion order and an assignment to a key that is there
  keeps the key's place: an association list, read with \<^const>\<open>map_of\<close> and written with
  \<^const>\<open>AList.update\<close>.
\<close>

type_synonym ('k, 'v) dict = "('k \<times> 'v) list"

type_synonym info = "(string, pyval) dict"

definition bnd :: "error + 'a \<Rightarrow> ('a \<Rightarrow> error + 'b) \<Rightarrow> error + 'b" where
  "bnd m f = (case m of Inl e \<Rightarrow> Inl e | Inr x \<Rightarrow> f x)"

text \<open>\<^verbatim>\<open>d[k]\<close>, which raises KeyError when the key is missing.\<close>

definition item :: "('k, 'v) dict \<Rightarrow> 'k \<Rightarrow> error + 'v" where
  "item d k = (case map_of d k of None \<Rightarrow> Inl KeyError | Some v \<Rightarrow> Inr v)"

text \<open>\<^verbatim>\<open>if not k in d: d[k] = []\<close> followed by \<^verbatim>\<open>d[k].append(v)\<close>.\<close>

definition append_to :: "'k \<Rightarrow> 'v \<Rightarrow> ('k, 'v list) dict \<Rightarrow> ('k, 'v list) dict" where
  "append_to k v d =
     AList.update k ((case map_of d k of None \<Rightarrow> [] | Some vs \<Rightarrow> vs) @ [v]) d"

text \<open>\<^verbatim>\<open>d[k1] = v1; d[k2] = v2; ...\<close> on one dict.\<close>

definition assign :: "('k \<times> 'v) list \<Rightarrow> ('k, 'v) dict \<Rightarrow> ('k, 'v) dict" where
  "assign kvs d = fold (\<lambda>kv. AList.update (fst kv) (snd kv)) kvs d"

text \<open>
  \<^verbatim>\<open>if uuid in self._dbphotos: self._dbphotos[uuid][k1] = v1; ...\<close>, where the values may be
  computed from the record as it stands.
\<close>

definition set_keys ::
  "pyval \<Rightarrow> (info \<Rightarrow> (string \<times> pyval) list) \<Rightarrow> (pyval, info) dict \<Rightarrow> (pyval, info) dict" where
  "set_keys u kvs photos =
     (case map_of photos u of
        None \<Rightarrow> photos
      | Some i \<Rightarrow> AList.update u (assign (kvs i) i) photos)"

text \<open>A loop whose body may raise: the first exception ends it.\<close>

fun fold_err :: "('a \<Rightarrow> 's \<Rightarrow> error + 's) \<Rightarrow> 'a list \<Rightarrow> 's \<Rightarrow> error + 's" where
  "fold_err f [] s = Inr s"
| "fold_err f (x # xs) s = (case f x s of Inl e \<Rightarrow> Inl e | Inr s' \<Rightarrow> fold_err f xs s')"

fun filter_err :: "('a \<Rightarrow> error + bool) \<Rightarrow> 'a list \<Rightarrow> error + 'a list" where
  "filter_err p [] = Inr []"
| "filter_err p (x # xs) =
     (case p x of
        Inl e \<Rightarrow> Inl e
      | Inr b \<Rightarrow> (case filter_err p xs of
                    Inl e \<Rightarrow> Inl e
                  | Inr ys \<Rightarrow> Inr (if b then x # ys else ys)))"

section \<open>The PhotosDB object\<close>

record photosdb =
  db_version :: string
  dbphotos :: "(pyval, info) dict"
  dbphotos_burst :: "(pyval, pyval set) dict"
  dbfaces_uuid :: "(pyval, pyval list) dict"
  dbfaces_person :: "(pyval, pyval list) dict"
  dbkeywords_uuid :: "(pyval, pyval list) dict"
  dbkeywords_keyword :: "(pyval, pyval list) dict"
  dbalbums_uuid :: "(pyval, pyval list) dict"
  dbalbums_album :: "(pyval, pyval list) dict"
  dbalbum_details :: "(pyval, info) dict"
  dbvolumes :: "(pyval, pyval) dict"
  tmp_files :: "string list"

text \<open>The object as \<^verbatim>\<open>__init__\<close> leaves it before it calls an ingester.\<close>

definition new_db :: "string \<Rightarrow> string list \<Rightarrow> photosdb" where
  "new_db version tmps =
     \<lparr> db_version = version, dbphotos = [], dbphotos_burst = [],
       dbfaces_uuid = [], dbfaces_person = [],
       dbkeywords_uuid = [], dbkeywords_keyword = [],
       dbalbums_uuid = [], dbalbums_album = [],
       dbalbum_details = [], dbvolumes = [], tmp_files = tmps \<rparr>"

section \<open>The query: \<^verbatim>\<open>PhotosDB.photos\<close>\<close>

text \<open>An argument that is None or an empty list is not a criterion.\<close>

definition given :: "'a list option \<Rightarrow> bool" where
  "given a = (case a of None \<Rightarrow> False | Some xs \<Rightarrow> xs \<noteq> [])"

definition values_of :: "'a list option \<Rightarrow> 'a list" where
  "values_of a = (case a of None \<Rightarrow> [] | Some xs \<Rightarrow> xs)"

text \<open>The dict \<^verbatim>\<open>album_titles\<close>: title to the ids of the albums that carry it.\<close>

definition album_titles :: "(pyval, info) dict \<Rightarrow> error + (pyval, pyval list) dict" where
  "album_titles details =
     fold_err (\<lambda>entry titles. bnd (item (snd entry) ''title'')
                 (\<lambda>title. Inr (append_to title (fst entry) titles)))
       details []"

text \<open>One set per requested album title that exists: the assets of all albums of that title.\<close>

definition album_sets :: "photosdb \<Rightarrow> pyval list \<Rightarrow> error + pyval set list" where
  "album_sets db albums =
     bnd (album_titles (dbalbum_details db)) (\<lambda>titles.
       fold_err (\<lambda>album sets.
           case map_of titles album of
             None \<Rightarrow> Inr sets
           | Some ids \<Rightarrow>
               bnd (fold_err (\<lambda>album_id album_set.
                        bnd (item (dbalbums_album db) album_id)
                          (\<lambda>us. Inr (album_set \<union> set us))) ids {})
                 (\<lambda>album_set. Inr (sets @ [album_set])))
         albums [])"

text \<open>One set per requested uuid, keyword or person that the index knows.\<close>

definition uuid_sets :: "photosdb \<Rightarrow> pyval list \<Rightarrow> pyval set list" where
  "uuid_sets db uuid = map (\<lambda>u. {u}) (filter (\<lambda>u. map_of (dbphotos db) u \<noteq> None) uuid)"

definition name_sets :: "(pyval, pyval list) dict \<Rightarrow> pyval list \<Rightarrow> pyval set list" where
  "name_sets d names =
     concat (map (\<lambda>n. case map_of d n of None \<Rightarrow> [] | Some us \<Rightarrow> [set us]) names)"

definition image_date :: "info \<Rightarrow> error + int" where
  "image_date v =
     (case map_of v ''imageDate'' of
        None \<Rightarrow> Inl KeyError
      | Some (PDate d) \<Rightarrow> Inr d
      | Some _ \<Rightarrow> Inl TypeError)"

definition date_sets :: "photosdb \<Rightarrow> int option \<Rightarrow> int option \<Rightarrow> error + pyval set list" where
  "date_sets db from_date to_date =
     (if from_date \<noteq> None \<or> to_date \<noteq> None then
        bnd (case from_date of
               None \<Rightarrow> Inr (dbphotos db)
             | Some f \<Rightarrow> filter_err (\<lambda>kv. bnd (image_date (snd kv)) (\<lambda>d. Inr (d \<ge> f)))
                          (dbphotos db))
          (\<lambda>dsel. bnd (case to_date of
                         None \<Rightarrow> Inr dsel
                       | Some t \<Rightarrow> filter_err (\<lambda>kv. bnd (image_date (snd kv)) (\<lambda>d. Inr (d \<le> t)))
                                    dsel)
             (\<lambda>dsel'. Inr [set (map fst dsel')]))
      else Inr [])"

text \<open>The list \<^verbatim>\<open>photos_sets\<close>, in the order in which the source appends to it.\<close>

definition photos_sets ::
  "photosdb \<Rightarrow> pyval list option \<Rightarrow> pyval list option \<Rightarrow> pyval list option \<Rightarrow>
   pyval list option \<Rightarrow> int option \<Rightarrow> int option \<Rightarrow> error + pyval set list" where
  "photos_sets db keywords uuid persons albums from_date to_date =
     (if \<not> (given keywords \<or> given uuid \<or> given persons \<or> given albums
             \<or> from_date \<noteq> None \<or> to_date \<noteq> None)
      then Inr [set (map fst (dbphotos db))]
      else
        bnd (if given albums then album_sets db (values_of albums) else Inr []) (\<lambda>s1.
        bnd (date_sets db from_date to_date) (\<lambda>s5.
          Inr (s1
               @ (if given uuid then uuid_sets db (values_of uuid) else [])
               @ (if given keywords then name_sets (dbkeywords_keyword db) (values_of keywords)
                  else [])
               @ (if given persons then name_sets (dbfaces_person db) (values_of persons)
                  else [])
               @ s5))))"

text \<open>\<^verbatim>\<open>set.intersection(*photos_sets)\<close>, called on a non-empty list only.\<close>

fun intersection :: "'a set list \<Rightarrow> 'a set" where
  "intersection [] = {}"
| "intersection (s # ss) = fold (\<lambda>t acc. acc \<inter> t) ss s"

text \<open>
  The body of the final loop for one uuid \<open>p\<close>: whether \<open>p\<close> is appended to the result.
  \<^verbatim>\<open>and\<close> and \<^verbatim>\<open>or\<close> evaluate their right operand only when needed.
\<close>

definition selected :: "photosdb \<Rightarrow> bool \<Rightarrow> bool \<Rightarrow> pyval \<Rightarrow> error + bool" where
  "selected db images movies p =
     bnd (item (dbphotos db) p) (\<lambda>i.
     bnd (item i ''burst'') (\<lambda>burst.
     bnd (if truthy burst then bnd (item i ''burst_key'') (\<lambda>k. Inr (\<not> truthy k))
          else Inr False) (\<lambda>skip.
       if skip then Inr False
       else
         bnd (if images then bnd (item i ''type'') (\<lambda>t. Inr (t = PHOTO_TYPE)) else Inr False)
           (\<lambda>is_image.
              if is_image then Inr True
              else if movies then bnd (item i ''type'') (\<lambda>t. Inr (t = MOVIE_TYPE))
              else Inr False))))"

text \<open>
  \<^verbatim>\<open>photos(keywords, uuid, persons, albums, images, movies, from_date, to_date)\<close>. The source
  returns a list in the iteration order of a set, which Python leaves open: the result is
  the set of the uuids of the returned PhotoInfo objects.
\<close>

definition photos ::
  "photosdb \<Rightarrow> pyval list option \<Rightarrow> pyval list option \<Rightarrow> pyval list option \<Rightarrow>
   pyval list option \<Rightarrow> bool \<Rightarrow> bool \<Rightarrow> int option \<Rightarrow> int option \<Rightarrow> error + pyval set" where
  "photos db keywords uuid persons albums images movies from_date to_date =
     bnd (photos_sets db keywords uuid persons albums from_date to_date) (\<lambda>sets.
       if sets = [] then Inr {}
       else
         let candidates = intersection sets in
         if \<exists>p \<in> candidates. isl (selected db images movies p)
         then Inl KeyError
         else Inr {p \<in> candidates. selected db images movies p = Inr True})"

section \<open>The legacy ingester: \<^verbatim>\<open>_process_database4\<close>\<close>

text \<open>
  The rows that each query of the ingester fetches, in the order of the queries. The
  database is read-only input: the ingester is a function of these lists.
\<close>

record raw4 =
  faces4 :: "row list"
  albums4 :: "row list"
  album_details4 :: "row list"
  keywords4 :: "row list"
  volumes4 :: "row list"
  photos4 :: "row list"
  resources4 :: "row list"
  adjustments4 :: "row list"
  live4 :: "row list"
  cloud4 :: "row list"

text \<open>Seconds from 1970-01-01 to 2001-01-01, the epoch of the stored timestamps.\<close>

definition td :: int where
  "td = 978307200"

text \<open>
  \<^verbatim>\<open>datetime.fromtimestamp(c + td)\<close>: the sum raises TypeError unless the cell is a number.
  (The range check of \<^verbatim>\<open>fromtimestamp\<close> and the local time zone are left out.)
\<close>

definition fromtimestamp :: "pyval \<Rightarrow> error + pyval" where
  "fromtimestamp c = (case c of PInt n \<Rightarrow> Inr (PDate (n + td)) | _ \<Rightarrow> Inl TypeError)"

text \<open>\<^verbatim>\<open>try: fromtimestamp(a + td) except: fromtimestamp(b + td)\<close>\<close>

definition lastmodified :: "pyval \<Rightarrow> pyval \<Rightarrow> error + pyval" where
  "lastmodified a b = (case fromtimestamp a of Inl e \<Rightarrow> fromtimestamp b | Inr d \<Rightarrow> Inr d)"

text \<open>The two loops over (name, uuid) pairs that fill a pair of cross-reference dicts.\<close>

definition link :: "pyval \<Rightarrow> pyval \<Rightarrow>
    (pyval, pyval list) dict \<times> (pyval, pyval list) dict \<Rightarrow>
    (pyval, pyval list) dict \<times> (pyval, pyval list) dict" where
  "link name uuid d = (append_to uuid name (fst d), append_to name uuid (snd d))"

definition faces_step4 :: "row \<Rightarrow>
    (pyval, pyval list) dict \<times> (pyval, pyval list) dict \<Rightarrow>
    (pyval, pyval list) dict \<times> (pyval, pyval list) dict" where
  "faces_step4 person d = (if person 0 = PNone then d else link (person 0) (person 1) d)"

definition pairs_step :: "row \<Rightarrow>
    (pyval, pyval list) dict \<times> (pyval, pyval list) dict \<Rightarrow>
    (pyval, pyval list) dict \<times> (pyval, pyval list) dict" where
  "pairs_step r d = link (r 0) (r 1) d"

definition album_details_step4 :: "row \<Rightarrow> (pyval, info) dict \<Rightarrow> (pyval, info) dict" where
  "album_details_step4 album details =
     AList.update (album 0)
       [(''title'', album 1),
        (''cloudlibrarystate'', album 2),
        (''cloudidentifier'', album 3),
        (''cloudlocalstate'', PNone),
        (''cloudownerfirstname'', PNone),
        (''cloudownderlastname'', PNone),
        (''cloudownerhashedpersonid'', PNone)] details"

definition volume_step :: "row \<Rightarrow> (pyval, pyval) dict \<Rightarrow> (pyval, pyval) dict" where
  "volume_step vol volumes = AList.update (vol 0) (vol 1) volumes"

text \<open>The burst fields, the same statements in both ingesters.\<close>

definition burst_key_of :: "pyval \<Rightarrow> pyval \<Rightarrow> pyval" where
  "burst_key_of burst_uuid pick =
     (if burst_uuid \<noteq> PNone then PBool (pick \<noteq> PInt 2 \<and> pick \<noteq> PInt 4) else PNone)"

definition burst_add :: "pyval \<Rightarrow> pyval \<Rightarrow> (pyval, pyval set) dict \<Rightarrow> (pyval, pyval set) dict" where
  "burst_add burst_uuid uuid bursts =
     (if burst_uuid \<noteq> PNone
      then AList.update burst_uuid
             (insert uuid (case map_of bursts burst_uuid of None \<Rightarrow> {} | Some s \<Rightarrow> s)) bursts
      else bursts)"

text \<open>The record that the main loop builds from one row of the wide join.\<close>

definition photo_info4 :: "row \<Rightarrow> error + info" where
  "photo_info4 row =
     bnd (lastmodified (row 4) (row 5)) (\<lambda>lastmodifieddate.
     bnd (fromtimestamp (row 5)) (\<lambda>imageDate.
       Inr [(''_uuid'', row 0),
            (''modelID'', row 1),
            (''masterUuid'', row 2),
            (''filename'', row 3),
            (''lastmodifieddate'', lastmodifieddate),
            (''imageDate'', imageDate),
            (''mainRating'', row 6),
            (''hasAdjustments'', row 7),
            (''hasKeywords'', row 8),
            (''imageTimeZoneOffsetSeconds'', row 9),
            (''volumeId'', row 10),
            (''imagePath'', row 11),
            (''extendedDescription'', row 12),
            (''name'', row 13),
            (''isMissing'', row 14),
            (''originalFilename'', row 15),
            (''favorite'', row 16),
            (''hidden'', row 17),
            (''latitude'', row 18),
            (''longitude'', row 19),
            (''adjustmentUuid'', row 20),
            (''adjustmentFormatID'', PNone),
            (''type'', if row 21 = PInt 2 then PHOTO_TYPE
                       else if row 21 = PInt 8 then MOVIE_TYPE else PNone),
            (''UTI'', row 22),
            (''burstUUID'', row 23),
            (''burstPickType'', row 24),
            (''burst'', PBool (row 23 \<noteq> PNone)),
            (''burst_key'', burst_key_of (row 23) (row 24)),
            (''specialType'', row 25),
            (''masterModelID'', row 26),
            (''panorama'', PBool (row 25 = PInt 1)),
            (''slow_mo'', PBool (row 25 = PInt 2)),
            (''time_lapse'', PBool (row 25 = PInt 3)),
            (''hdr'', PBool (row 25 = PInt 4 \<or> row 25 = PInt 8)),
            (''live_photo'', PBool (row 25 = PInt 5 \<or> row 25 = PInt 8)),
            (''screenshot'', PBool (row 25 = PInt 6)),
            (''portrait'', PBool (row 25 = PInt 9)),
            (''selfie'', PNone),
            (''cloudAssetGUID'', PNone),
            (''cloudLocalState'', PNone),
            (''cloudLibraryState'', PNone),
            (''cloudStatus'', PNone),
            (''cloudAvailable'', PNone),
            (''incloud'', PNone)]))"

definition photo_step4 :: "row \<Rightarrow>
    (pyval, info) dict \<times> (pyval, pyval set) dict \<Rightarrow>
    error + (pyval, info) dict \<times> (pyval, pyval set) dict" where
  "photo_step4 row s =
     bnd (photo_info4 row) (\<lambda>i.
       Inr (AList.update (row 0) i (fst s), burst_add (row 23) (row 0) (snd s)))"

text \<open>The edit resource: the last qualifying row of an asset wins.\<close>

definition edit_step4 :: "row \<Rightarrow> (pyval, info) dict \<Rightarrow> error + (pyval, info) dict" where
  "edit_step4 row phs =
     (case map_of phs (row 0) of
        None \<Rightarrow> Inr phs
      | Some i \<Rightarrow>
          bnd (item i ''adjustmentUuid'') (\<lambda>a.
            Inr (if a = row 3 \<and> row 1 \<noteq> PStr ''UNADJUSTEDNONRAW''
                      \<and> row 1 \<noteq> PStr ''UNADJUSTED'' \<and> row 6 = PInt 2
                 then set_keys (row 0) (\<lambda>_. [(''edit_resource_id'', row 2)]) phs
                 else phs)))"

definition adjustment_step4 :: "row \<Rightarrow> (pyval, info) dict \<Rightarrow> (pyval, info) dict" where
  "adjustment_step4 row phs =
     set_keys (row 0) (\<lambda>_. [(''adjustmentFormatID'', row 3)]) phs"

definition live_step4 :: "row \<Rightarrow> (pyval, info) dict \<Rightarrow> (pyval, info) dict" where
  "live_step4 row phs =
     set_keys (row 0) (\<lambda>_. [(''live_model_id'', row 1),
                             (''modeResourceIsOnDisk'', PBool (row 6 = PInt 1))]) phs"

text \<open>\<^verbatim>\<open>init any uuids that had no edits or live photos\<close>\<close>

definition backfill4 :: "info \<Rightarrow> (string \<times> pyval) list" where
  "backfill4 i =
     (if map_of i ''edit_resource_id'' = None then [(''edit_resource_id'', PNone)] else [])
     @ (if map_of i ''live_model_id'' = None
        then [(''live_model_id'', PNone), (''modeResourceIsOnDisk'', PNone)] else [])"

definition cloud_step4 :: "row \<Rightarrow> (pyval, info) dict \<Rightarrow> (pyval, info) dict" where
  "cloud_step4 row phs =
     set_keys (row 0) (\<lambda>_. [(''cloudLibraryState'', row 1),
                             (''cloudAvailable'', row 2),
                             (''cloudStatus'', row 3),
                             (''incloud'', PBool (row 2 = PInt 1))]) phs"

text \<open>
  \<^verbatim>\<open>add faces and keywords to photo data\<close>: the body of the loop for one uuid. The legacy
  loop reads \<^verbatim>\<open>self._dbkeywords_uuid[uuid]\<close> and \<^verbatim>\<open>self._dbvolumes[volumeId]\<close> without asking
  whether the key is there.
\<close>

definition persons_albums :: "photosdb \<Rightarrow> pyval \<Rightarrow> (string \<times> pyval) list" where
  "persons_albums db uuid =
     (case map_of (dbfaces_uuid db) uuid of
        Some ps \<Rightarrow> [(''hasPersons'', PInt 1), (''persons'', PList ps)]
      | None \<Rightarrow> [(''hasPersons'', PInt 0), (''persons'', PList [])])
     @ (case map_of (dbalbums_uuid db) uuid of
          Some as \<Rightarrow> [(''albums'', PList as), (''hasAlbums'', PInt 1)]
        | None \<Rightarrow> [(''albums'', PList []), (''hasAlbums'', PInt 0)])"

definition attach_step4 :: "photosdb \<Rightarrow> pyval \<Rightarrow> (pyval, info) dict \<Rightarrow> error + (pyval, info) dict" where
  "attach_step4 db uuid phs =
     bnd (item phs uuid) (\<lambda>i.
     bnd (item i ''hasKeywords'') (\<lambda>has_keywords.
     bnd (if has_keywords = PInt 1
          then bnd (item (dbkeywords_uuid db) uuid) (\<lambda>ks. Inr (PList ks))
          else Inr (PList [])) (\<lambda>keywords.
     bnd (item i ''volumeId'') (\<lambda>volume_id.
     bnd (if volume_id \<noteq> PNone then item (dbvolumes db) volume_id else Inr PNone) (\<lambda>volume.
       Inr (set_keys uuid
              (\<lambda>_. [(''keywords'', keywords)] @ persons_albums db uuid @ [(''volume'', volume)])
              phs))))))"

text \<open>The loops over persons, albums, album details, keywords and volumes.\<close>

definition cross_references4 :: "raw4 \<Rightarrow> photosdb \<Rightarrow> photosdb" where
  "cross_references4 raw db =
    (let faces = fold faces_step4 (faces4 raw) (dbfaces_uuid db, dbfaces_person db);
         albums = fold pairs_step (albums4 raw) (dbalbums_uuid db, dbalbums_album db);
         details = fold album_details_step4 (album_details4 raw) (dbalbum_details db);
         keywords = fold pairs_step (keywords4 raw) (dbkeywords_uuid db, dbkeywords_keyword db);
         volumes = fold volume_step (volumes4 raw) (dbvolumes db)
     in db \<lparr> dbfaces_uuid := fst faces, dbfaces_person := snd faces,
              dbalbums_uuid := fst albums, dbalbums_album := snd albums,
              dbalbum_details := details,
              dbkeywords_uuid := fst keywords, dbkeywords_keyword := snd keywords,
              dbvolumes := volumes \<rparr>)"

text \<open>Everything \<^verbatim>\<open>_process_database4\<close> does before it removes the temporary files.\<close>

definition build4 :: "raw4 \<Rightarrow> photosdb \<Rightarrow> error + photosdb" where
  "build4 raw db =
    (let db1 = cross_references4 raw db
     in
       bnd (fold_err photo_step4 (photos4 raw) (dbphotos db, dbphotos_burst db)) (\<lambda>main.
       bnd (fold_err edit_step4 (resources4 raw) (fst main)) (\<lambda>p1.
         let p2 = fold adjustment_step4 (adjustments4 raw) p1;
             p3 = fold live_step4 (live4 raw) p2;
             p4 = fold (\<lambda>u. set_keys u backfill4) (map fst p3) p3;
             p5 = fold cloud_step4 (cloud4 raw) p4
         in
           bnd (fold_err (attach_step4 db1) (map fst p5) p5) (\<lambda>p6.
             Inr (db1 \<lparr> dbphotos := p6, dbphotos_burst := snd main \<rparr>)))))"

section \<open>The temporary files: \<^verbatim>\<open>_cleanup_tmp_files\<close>\<close>

text \<open>
  The part of the file system that the cleanup sees: the files for which
  \<^verbatim>\<open>os.path.exists\<close> holds, those on which \<^verbatim>\<open>os.remove\<close> raises, and the calls of
  \<^verbatim>\<open>os.remove\<close> made so far.
\<close>

record world =
  existing :: "string set"
  undeletable :: "string set"
  removals :: "string list"

text \<open>
  \<^verbatim>\<open>for f in self._tmp_files\<close>, where the body removes \<open>f\<close> from the very list it walks: the
  iterator of a Python list is an index into the list as it is now. \<open>dbg\<close> is the value of
  \<^verbatim>\<open>_debug()\<close>. In the handler, \<^verbatim>\<open>"exception %e removing %s" % (e, f)\<close> formats an exception
  with \<^verbatim>\<open>%e\<close>, which raises TypeError.
\<close>

function cleanup_from ::
  "bool \<Rightarrow> nat \<Rightarrow> string list \<Rightarrow> world \<Rightarrow> error option \<times> string list \<times> world" where
  "cleanup_from dbg n fs w =
     (if n < length fs then
        if fs ! n \<in> existing w then
          if fs ! n \<in> undeletable w then
            if dbg then (Some TypeError, fs, w \<lparr> removals := removals w @ [fs ! n] \<rparr>)
            else cleanup_from dbg (Suc n) fs (w \<lparr> removals := removals w @ [fs ! n] \<rparr>)
          else cleanup_from dbg (Suc n) (remove1 (fs ! n) fs)
                 (w \<lparr> existing := existing w - {fs ! n},
                      removals := removals w @ [fs ! n] \<rparr>)
        else cleanup_from dbg (Suc n) (remove1 (fs ! n) fs) w
      else (None, fs, w))"
  by pat_completeness auto
termination
  by (relation "measure (\<lambda>(dbg, n, fs, w). length fs - n)") (auto simp: length_remove1)

definition cleanup_tmp_files :: "bool \<Rightarrow> photosdb \<Rightarrow> world \<Rightarrow> (error + photosdb) \<times> world" where
  "cleanup_tmp_files dbg db w =
     (case cleanup_from dbg 0 (tmp_files db) w of
        (None, fs, w') \<Rightarrow> (Inr (db \<lparr> tmp_files := fs \<rparr>), w')
      | (Some e, fs, w') \<Rightarrow> (Inl e, w'))"

text \<open>The whole of \<^verbatim>\<open>_process_database4\<close>: an exception ends it where it is raised.\<close>

definition process_database4 ::
  "bool \<Rightarrow> raw4 \<Rightarrow> photosdb \<Rightarrow> world \<Rightarrow> (error + photosdb) \<times> world" where
  "process_database4 dbg raw db w =
     (case build4 raw db of
        Inl e \<Rightarrow> (Inl e, w)
      | Inr db' \<Rightarrow> cleanup_tmp_files dbg db' w)"

section \<open>The modern ingester: \<^verbatim>\<open>_process_database5\<close>\<close>

record raw5 =
  faces5 :: "row list"
  albums5 :: "row list"
  album_details5 :: "row list"
  keywords5 :: "row list"
  volumes5 :: "row list"
  photos5 :: "row list"
  descriptions5 :: "row list"
  adjustments5 :: "row list"
  availability_subtype5 :: "row list"
  availability_fingerprint5 :: "row list"
  cloud5 :: "row list"

definition faces_step5 :: "row \<Rightarrow>
    (pyval, pyval list) dict \<times> (pyval, pyval list) dict \<Rightarrow>
    (pyval, pyval list) dict \<times> (pyval, pyval list) dict" where
  "faces_step5 person d =
     (if person 0 = PNone then d
      else link (if person 0 \<noteq> PStr [] then person 0 else UNKNOWN_PERSON) (person 1) d)"

definition album_details_step5 :: "row \<Rightarrow> (pyval, info) dict \<Rightarrow> (pyval, info) dict" where
  "album_details_step5 album details =
     AList.update (album 0)
       [(''title'', album 1),
        (''cloudlocalstate'', album 2),
        (''cloudownerfirstname'', album 3),
        (''cloudownderlastname'', album 4),
        (''cloudownerhashedpersonid'', album 5),
        (''cloudlibrarystate'', PNone),
        (''cloudidentifier'', PNone)] details"

definition photo_info5 :: "row \<Rightarrow> error + info" where
  "photo_info5 row =
     bnd (lastmodified (row 4) (row 5)) (\<lambda>lastmodifieddate.
     bnd (fromtimestamp (row 5)) (\<lambda>imageDate.
       Inr [(''_uuid'', row 0),
            (''modelID'', PNone),
            (''masterUuid'', PNone),
            (''masterFingerprint'', row 1),
            (''name'', row 2),
            (''lastmodifieddate'', lastmodifieddate),
            (''imageDate'', imageDate),
            (''imageTimeZoneOffsetSeconds'', row 6),
            (''hidden'', row 9),
            (''favorite'', row 10),
            (''originalFilename'', row 3),
            (''filename'', row 12),
            (''directory'', row 11),
            (''latitude'', if row 13 = PInt (- 180) \<and> row 14 = PInt (- 180) then PNone else row 13),
            (''longitude'', if row 13 = PInt (- 180) \<and> row 14 = PInt (- 180) then PNone else row 14),
            (''hasAdjustments'', row 15),
            (''cloudbatchpublishdate'', row 16),
            (''shared'', PBool (row 16 \<noteq> PNone)),
            (''extendedDescription'', PNone),
            (''localAvailability'', PNone),
            (''remoteAvailability'', PNone),
            (''isMissing'', PNone),
            (''adjustmentUuid'', PNone),
            (''adjustmentFormatID'', PNone),
            (''type'', if row 17 = PInt 0 then PHOTO_TYPE
                       else if row 17 = PInt 1 then MOVIE_TYPE else PNone),
            (''UTI'', row 18),
            (''burstUUID'', row 19),
            (''burstPickType'', row 20),
            (''burst'', PBool (row 19 \<noteq> PNone)),
            (''burst_key'', burst_key_of (row 19) (row 20)),
            (''subtype'', row 21),
            (''live_photo'', PBool (row 21 = PInt 2)),
            (''screenshot'', PBool (row 21 = PInt 10)),
            (''slow_mo'', PBool (row 21 = PInt 101)),
            (''time_lapse'', PBool (row 21 = PInt 102)),
            (''customRenderedValue'', row 22),
            (''hdr'', PBool (row 22 = PInt 3)),
            (''portrait'', PBool (row 22 = PInt 8)),
            (''panorama'', PBool (row 21 = PInt 1 \<or> row 22 = PInt 6)),
            (''selfie'', PBool (row 23 = PInt 1)),
            (''cloudAssetGUID'', row 24),
            (''cloudLocalState'', PNone),
            (''incloud'', PNone),
            (''cloudLibraryState'', PNone),
            (''cloudStatus'', PNone),
            (''cloudAvailable'', PNone)]))"

definition photo_step5 :: "row \<Rightarrow>
    (pyval, info) dict \<times> (pyval, pyval set) dict \<Rightarrow>
    error + (pyval, info) dict \<times> (pyval, pyval set) dict" where
  "photo_step5 row s =
     bnd (photo_info5 row) (\<lambda>i.
       Inr (AList.update (row 0) i (fst s), burst_add (row 19) (row 0) (snd s)))"

definition description_step5 :: "row \<Rightarrow> (pyval, info) dict \<Rightarrow> (pyval, info) dict" where
  "description_step5 row phs =
     set_keys (row 0) (\<lambda>_. [(''extendedDescription'', row 1)]) phs"

definition adjustment_step5 :: "row \<Rightarrow> (pyval, info) dict \<Rightarrow> (pyval, info) dict" where
  "adjustment_step5 row phs =
     set_keys (row 0) (\<lambda>_. [(''adjustmentFormatID'', row 2)]) phs"

text \<open>The body shared by the two availability loops.\<close>

definition availability_step5 :: "row \<Rightarrow> (pyval, info) dict \<Rightarrow> (pyval, info) dict" where
  "availability_step5 row phs =
     set_keys (row 0) (\<lambda>_. [(''localAvailability'', row 1),
                             (''remoteAvailability'', row 2),
                             (''isMissing'', if row 1 \<noteq> PInt 1 then PInt 1 else PInt 0)]) phs"

definition cloud_step5 :: "row \<Rightarrow> (pyval, info) dict \<Rightarrow> (pyval, info) dict" where
  "cloud_step5 row phs =
     set_keys (row 0) (\<lambda>_. [(''cloudLocalState'', row 1),
                             (''incloud'', PBool (row 1 = PInt 3))]) phs"

definition attach5 :: "photosdb \<Rightarrow> pyval \<Rightarrow> (string \<times> pyval) list" where
  "attach5 db uuid =
     (case map_of (dbkeywords_uuid db) uuid of
        Some ks \<Rightarrow> [(''hasKeywords'', PInt 1), (''keywords'', PList ks)]
      | None \<Rightarrow> [(''hasKeywords'', PInt 0), (''keywords'', PList [])])
     @ persons_albums db uuid"

definition cross_references5 :: "raw5 \<Rightarrow> photosdb \<Rightarrow> photosdb" where
  "cross_references5 raw db =
    (let faces = fold faces_step5 (faces5 raw) (dbfaces_uuid db, dbfaces_person db);
         albums = fold pairs_step (albums5 raw) (dbalbums_uuid db, dbalbums_album db);
         details = fold album_details_step5 (album_details5 raw) (dbalbum_details db);
         keywords = fold pairs_step (keywords5 raw) (dbkeywords_uuid db, dbkeywords_keyword db);
         volumes = fold volume_step (volumes5 raw) (dbvolumes db)
     in db \<lparr> dbfaces_uuid := fst faces, dbfaces_person := snd faces,
              dbalbums_uuid := fst albums, dbalbums_album := snd albums,
              dbalbum_details := details,
              dbkeywords_uuid := fst keywords, dbkeywords_keyword := snd keywords,
              dbvolumes := volumes \<rparr>)"

text \<open>Everything \<^verbatim>\<open>_process_database5\<close> does before it removes the temporary files.\<close>

definition build5 :: "raw5 \<Rightarrow> photosdb \<Rightarrow> error + photosdb" where
  "build5 raw db =
    (let db1 = cross_references5 raw db
     in
       bnd (fold_err photo_step5 (photos5 raw) (dbphotos db, dbphotos_burst db)) (\<lambda>main.
         let p1 = fold description_step5 (descriptions5 raw) (fst main);
             p2 = fold adjustment_step5 (adjustments5 raw) p1;
             p3 = fold availability_step5 (availability_subtype5 raw) p2;
             p4 = fold availability_step5 (availability_fingerprint5 raw) p3;
             p5 = fold cloud_step5 (cloud5 raw) p4;
             p6 = fold (\<lambda>u. set_keys u (\<lambda>_. attach5 db1 u)) (map fst p5) p5
         in Inr (db1 \<lparr> dbphotos := p6, dbphotos_burst := snd main \<rparr>)))"

definition process_database5 ::
  "bool \<Rightarrow> raw5 \<Rightarrow> photosdb \<Rightarrow> world \<Rightarrow> (error + photosdb) \<times> world" where
  "process_database5 dbg raw db w =
     (case build5 raw db of
        Inl e \<Rightarrow> (Inl e, w)
      | Inr db' \<Rightarrow> cleanup_tmp_files dbg db' w)"

section \<open>The shared-album views\<close>

text \<open>
  \<^verbatim>\<open>self._db_version < _PHOTOS_5_VERSION\<close> compares two strings; \<open>v5\<close> is the constant
  \<^verbatim>\<open>_PHOTOS_5_VERSION\<close> of the module \<^verbatim>\<open>_constants\<close>, which is not among the sources at hand.
  The views return their value together with the warnings they log.
\<close>

definition shared_warning :: "string \<Rightarrow> string" where
  "shared_warning v5 = ''albums_shared not implemented for Photos versions < '' @ v5"

text \<open>The keys of \<^verbatim>\<open>_dbalbums_album\<close> whose details have a cloud owner.\<close>

definition shared_album_keys :: "photosdb \<Rightarrow> error + pyval list" where
  "shared_album_keys db =
     filter_err (\<lambda>k. bnd (item (dbalbum_details db) k) (\<lambda>d.
                       bnd (item d ''cloudownerhashedpersonid'') (\<lambda>owner.
                         Inr (owner \<noteq> PNone))))
       (map fst (dbalbums_album db))"

definition album_title :: "photosdb \<Rightarrow> pyval \<Rightarrow> error + pyval" where
  "album_title db k = bnd (item (dbalbum_details db) k) (\<lambda>d. item d ''title'')"

text \<open>The result is \<^verbatim>\<open>list(albums)\<close> for a set \<^verbatim>\<open>albums\<close>: a set of titles.\<close>

definition albums_shared :: "string \<Rightarrow> photosdb \<Rightarrow> error + pyval set \<times> string list" where
  "albums_shared v5 db =
     (if db_version db < v5 then Inr ({}, [shared_warning v5])
      else
        bnd (shared_album_keys db) (\<lambda>album_keys.
        bnd (fold_err (\<lambda>album albums. bnd (album_title db album)
                         (\<lambda>title. Inr (insert title albums))) album_keys {})
          (\<lambda>albums. Inr (albums, []))))"

text \<open>
  \<^verbatim>\<open>sorted(albums.items(), key=lambda kv: kv[1], reverse=True)\<close> is stable: entries with the
  same count keep their order.
\<close>

definition sorted_by_count :: "(pyval, nat) dict \<Rightarrow> (pyval, nat) dict" where
  "sorted_by_count d = sort_key (\<lambda>kv. - int (snd kv)) d"

definition albums_shared_as_dict ::
  "string \<Rightarrow> photosdb \<Rightarrow> error + (pyval, nat) dict \<times> string list" where
  "albums_shared_as_dict v5 db =
     (if db_version db < v5 then Inr ([], [shared_warning v5])
      else
        bnd (shared_album_keys db) (\<lambda>album_keys.
        bnd (fold_err (\<lambda>k albums.
                 bnd (album_title db k) (\<lambda>title.
                 bnd (item (dbalbums_album db) k) (\<lambda>us.
                   Inr (case map_of albums title of
                          Some n \<Rightarrow> AList.update title (n + length us) albums
                        | None \<Rightarrow> AList.update title (length us) albums))))
               album_keys [])
          (\<lambda>albums. Inr (sorted_by_count albums, []))))"

text \<open>
  The choice of the ingester in \<^verbatim>\<open>__init__\<close>:
  \<^verbatim>\<open>int(self._db_version) < int(_PHOTOS_5_VERSION)\<close> compares two numbers. The version
  marker is a string of decimal digits, and \<open>version_number\<close> is \<^verbatim>\<open>int\<close> on such a string.
\<close>

definition is_digit :: "char \<Rightarrow> bool" where
  "is_digit c = (CHR ''0'' \<le> c \<and> c \<le> CHR ''9'')"

definition version_number :: "string \<Rightarrow> nat" where
  "version_number s = foldl (\<lambda>n c. 10 * n + (of_char c - of_char CHR ''0'')) 0 s"

definition legacy_classified :: "string \<Rightarrow> string \<Rightarrow> bool" where
  "legacy_classified v5 version = (version_number version < version_number v5)"

section \<open>Reading the index, and some stores\<close>

text \<open>\<^verbatim>\<open>self._dbphotos[p][k]\<close>, when both keys are there.\<close>

definition photo_field :: "photosdb \<Rightarrow> pyval \<Rightarrow> string \<Rightarrow> pyval option" where
  "photo_field db p k = (case map_of (dbphotos db) p of None \<Rightarrow> None | Some i \<Rightarrow> map_of i k)"

text \<open>The index that an ingestion returned.\<close>

definition ingested :: "error + photosdb \<Rightarrow> photosdb" where
  "ingested r = (case r of Inr db \<Rightarrow> db | Inl e \<Rightarrow> new_db [] [])"

text \<open>
  A row of the wide join of the modern ingester: uuid, no modification date, creation date 0,
  then the kind code, the burst group and the pick type; every other cell is NULL.
\<close>

definition asset5 :: "string \<Rightarrow> pyval \<Rightarrow> pyval \<Rightarrow> pyval \<Rightarrow> row" where
  "asset5 u kind_code burst pick =
     cells ([PStr u] @ replicate 4 PNone @ [PInt 0] @ replicate 11 PNone
            @ [kind_code, PNone, burst, pick])"

text \<open>
  The store of the spec's composition example: images A to E; A and B have the keyword cat,
  B and C the keyword dog; C and D are in the album Trip.
\<close>

definition pets5 :: raw5 where
  "pets5 =
     \<lparr> faces5 = [],
       albums5 = [cells [PStr ''T'', PStr ''C''], cells [PStr ''T'', PStr ''D'']],
       album_details5 = [cells [PStr ''T'', PStr ''Trip'']],
       keywords5 = [cells [PStr ''cat'', PStr ''A''], cells [PStr ''cat'', PStr ''B''],
                    cells [PStr ''dog'', PStr ''B''], cells [PStr ''dog'', PStr ''C'']],
       volumes5 = [],
       photos5 = map (\<lambda>u. asset5 u (PInt 0) PNone PNone) [''A'', ''B'', ''C'', ''D'', ''E''],
       descriptions5 = [], adjustments5 = [], availability_subtype5 = [],
       availability_fingerprint5 = [], cloud5 = [] \<rparr>"

definition pets_db :: photosdb where
  "pets_db = ingested (build5 pets5 (new_db ''6000'' []))"

text \<open>
  A store with an image, a movie, an asset of kind code 7, and a burst G of three images
  with the pick types 8, 16 and 2.
\<close>

definition mixed5 :: raw5 where
  "mixed5 =
     \<lparr> faces5 = [], albums5 = [], album_details5 = [], keywords5 = [], volumes5 = [],
       photos5 = [asset5 ''I1'' (PInt 0) PNone PNone,
                  asset5 ''M1'' (PInt 1) PNone PNone,
                  asset5 ''U1'' (PInt 7) PNone PNone,
                  asset5 ''B1'' (PInt 0) (PStr ''G'') (PInt 8),
                  asset5 ''B2'' (PInt 0) (PStr ''G'') (PInt 16),
                  asset5 ''B3'' (PInt 0) (PStr ''G'') (PInt 2)],
       descriptions5 = [], adjustments5 = [], availability_subtype5 = [],
       availability_fingerprint5 = [], cloud5 = [] \<rparr>"

definition mixed_db :: photosdb where
  "mixed_db = ingested (build5 mixed5 (new_db ''6000'' []))"

text \<open>
  A row of the wide join of the legacy ingester: uuid, no modification date, image date 0,
  the has-keywords flag, and type code 2 (image); every other cell is NULL.
\<close>

definition asset4 :: "string \<Rightarrow> pyval \<Rightarrow> row" where
  "asset4 u has_keywords =
     cells ([PStr u] @ replicate 4 PNone @ [PInt 0, PNone, PNone, has_keywords]
            @ replicate 12 PNone @ [PInt 2])"

text \<open>A legacy store whose only asset has the has-keywords flag set and no keyword row.\<close>

definition stale4 :: raw4 where
  "stale4 =
     \<lparr> faces4 = [], albums4 = [], album_details4 = [], keywords4 = [], volumes4 = [],
       photos4 = [asset4 ''A'' (PInt 1)],
       resources4 = [], adjustments4 = [], live4 = [], cloud4 = [] \<rparr>"

text \<open>One temporary copy of the database, which exists and can be removed.\<close>

definition one_copy :: world where
  "one_copy = \<lparr> existing = {''/tmp/osxphotos-1.db''}, undeletable = {}, removals = [] \<rparr>"

section \<open>Notions used in the proofs\<close>

text \<open>\<^verbatim>\<open>self._dbalbum_details[k][name]\<close>, when both keys are there.\<close>

definition album_field :: "photosdb \<Rightarrow> pyval \<Rightarrow> string \<Rightarrow> pyval option" where
  "album_field db k name =
     (case map_of (dbalbum_details db) k of None \<Rightarrow> None | Some d \<Rightarrow> map_of d name)"

text \<open>The keys of a dict.\<close>

definition keys_of :: "('k, 'v) dict \<Rightarrow> 'k set" where
  "keys_of d = fst ` set d"

text \<open>
  A loop body that does nothing but assign keys of \<open>K\<close> in the record of some uuid, and a
  property of records that no such assignment ends.
\<close>

definition writes_only ::
  "string set \<Rightarrow> ('a \<Rightarrow> (pyval, info) dict \<Rightarrow> error + (pyval, info) dict) \<Rightarrow> bool" where
  "writes_only K g =
     (\<forall>x qs qs'. g x qs = Inr qs' \<longrightarrow>
        (\<exists>u f. qs' = set_keys u f qs \<and> (\<forall>i. fst ` set (f i) \<subseteq> K)))"

definition kept_by :: "string set \<Rightarrow> (pyval \<Rightarrow> info \<Rightarrow> bool) \<Rightarrow> bool" where
  "kept_by K P = (\<forall>u i kvs. fst ` set kvs \<subseteq> K \<longrightarrow> P u i \<longrightarrow> P u (assign kvs i))"

definition every_record :: "(pyval \<Rightarrow> info \<Rightarrow> bool) \<Rightarrow> (pyval, info) dict \<Rightarrow> bool" where
  "every_record P ps = (\<forall>u i. map_of ps u = Some i \<longrightarrow> P u i)"

text \<open>
  The keys that the loops after the main loop assign in the records: in
  \<^verbatim>\<open>_process_database4\<close>, in \<^verbatim>\<open>_process_database5\<close>, and in \<^verbatim>\<open>_process_database5\<close> after the
  second availability loop.
\<close>

definition later_keys4 :: "string set" where
  "later_keys4 =
     {''edit_resource_id'', ''adjustmentFormatID'', ''live_model_id'', ''modeResourceIsOnDisk'',
      ''cloudLibraryState'', ''cloudAvailable'', ''cloudStatus'', ''incloud'',
      ''keywords'', ''hasPersons'', ''persons'', ''albums'', ''hasAlbums'', ''volume''}"

definition last_keys5 :: "string set" where
  "last_keys5 =
     {''cloudLocalState'', ''incloud'',
      ''hasKeywords'', ''keywords'', ''hasPersons'', ''persons'', ''albums'', ''hasAlbums''}"

definition later_keys5 :: "string set" where
  "later_keys5 =
     {''extendedDescription'', ''adjustmentFormatID'',
      ''localAvailability'', ''remoteAvailability'', ''isMissing''} \<union> last_keys5"

text \<open>The burst fields of a record agree with the burst group and the pick type it stores.\<close>

definition burst_fields_ok :: "info \<Rightarrow> bool" where
  "burst_fields_ok i =
     (\<exists>g pick. map_of i ''burstUUID'' = Some g \<and> map_of i ''burstPickType'' = Some pick
        \<and> map_of i ''burst'' = Some (PBool (g \<noteq> PNone))
        \<and> map_of i ''burst_key'' =
            Some (if g = PNone then PNone else PBool (pick \<noteq> PInt 2 \<and> pick \<noteq> PInt 4)))"

text \<open>Every burst group of the index has a member, and its members are in the index.\<close>

definition groups_ok :: "(pyval, info) dict \<times> (pyval, pyval set) dict \<Rightarrow> bool" where
  "groups_ok s = (\<forall>g m. map_of (snd s) g = Some m \<longrightarrow> m \<noteq> {} \<and> m \<subseteq> keys_of (fst s))"


text \<open>The availability fields of a record are those of a row of an availability join.\<close>

definition availability_is :: "row \<Rightarrow> info \<Rightarrow> bool" where
  "availability_is r i =
     (map_of i ''localAvailability'' = Some (r 1)
      \<and> map_of i ''remoteAvailability'' = Some (r 2)
      \<and> map_of i ''isMissing'' = Some (if r 1 \<noteq> PInt 1 then PInt 1 else PInt 0))"










text \<open>
  A modern store with one image X: the first availability join gives it the local
  availability 1, the second (by fingerprint) the local availability 0.
\<close>

definition avail5 :: raw5 where
  "avail5 =
     \<lparr> faces5 = [], albums5 = [], album_details5 = [], keywords5 = [], volumes5 = [],
       photos5 = [asset5 ''X'' (PInt 0) PNone PNone],
       descriptions5 = [], adjustments5 = [],
       availability_subtype5 = [cells [PStr ''X'', PInt 1, PInt 1]],
       availability_fingerprint5 = [cells [PStr ''X'', PInt 0, PInt 1]],
       cloud5 = [] \<rparr>"

definition avail_db :: photosdb where
  "avail_db = ingested (build5 avail5 (new_db ''6000'' []))"

text \<open>A legacy store with one image A and nothing else.\<close>

definition plain4 :: raw4 where
  "plain4 =
     \<lparr> faces4 = [], albums4 = [], album_details4 = [], keywords4 = [], volumes4 = [],
       photos4 = [asset4 ''A'' (PInt 0)],
       resources4 = [], adjustments4 = [], live4 = [], cloud4 = [] \<rparr>"

definition plain_db4 :: photosdb where
  "plain_db4 = ingested (build4 plain4 (new_db ''4025'' []))"





text \<open>
  Every burst group has a uuid other than None, and the record of each of its members names
  that group as its burst uuid.
\<close>

definition groups_tied :: "(pyval, info) dict \<times> (pyval, pyval set) dict \<Rightarrow> bool" where
  "groups_tied s =
     (\<forall>g m. map_of (snd s) g = Some m \<longrightarrow>
        g \<noteq> PNone
        \<and> (\<forall>u\<in>m. \<exists>i. map_of (fst s) u = Some i \<and> map_of i ''burstUUID'' = Some g))"

text \<open>
  A modern store with a shared album that has an asset, a shared album that has none and a
  personal album.
\<close>

definition shared5 :: raw5 where
  "shared5 =
     \<lparr> faces5 = [],
       albums5 = [cells [PStr ''S1'', PStr ''X''], cells [PStr ''P1'', PStr ''X'']],
       album_details5 =
         [cells [PStr ''S1'', PStr ''Family'', PNone, PNone, PNone, PStr ''hash1''],
          cells [PStr ''S2'', PStr ''Empty'', PNone, PNone, PNone, PStr ''hash2''],
          cells [PStr ''P1'', PStr ''Trip'']],
       keywords5 = [], volumes5 = [],
       photos5 = [asset5 ''X'' (PInt 0) PNone PNone],
       descriptions5 = [], adjustments5 = [], availability_subtype5 = [],
       availability_fingerprint5 = [], cloud5 = [] \<rparr>"

definition shared_db :: photosdb where
  "shared_db = ingested (build5 shared5 (new_db ''6000'' []))"

text \<open>
  The albums of \<^verbatim>\<open>_dbalbums_album\<close> (those that have an asset in the index) whose details
  have a cloud owner, and their titles.
\<close>

definition is_shared :: "photosdb \<Rightarrow> pyval \<Rightarrow> bool" where
  "is_shared db k =
     (case album_field db k ''cloudownerhashedpersonid'' of
        Some owner \<Rightarrow> owner \<noteq> PNone
      | None \<Rightarrow> False)"

definition shared_titles :: "photosdb \<Rightarrow> pyval set" where
  "shared_titles db =
     set (List.map_filter (\<lambda>k. album_field db k ''title'')
            (filter (is_shared db) (map fst (dbalbums_album db))))"

text \<open>Every album that has an asset in the index has details, with a title and an owner.\<close>

definition details_complete :: "photosdb \<Rightarrow> bool" where
  "details_complete db =
     list_all (\<lambda>k. album_field db k ''cloudownerhashedpersonid'' \<noteq> None
                  \<and> album_field db k ''title'' \<noteq> None)
       (map fst (dbalbums_album db))"

text \<open>The value of a decimal digit.\<close>

definition digit_value :: "char \<Rightarrow> nat" where
  "digit_value c = of_char c - of_char CHR ''0''"

section \<open>Facts about the helpers\<close>

lemma bnd_Inr: "bnd m f = Inr y \<longleftrightarrow> (\<exists>x. m = Inr x \<and> f x = Inr y)"
  by (cases m) (auto simp: bnd_def)

lemma item_Inr: "item d k = Inr v \<longleftrightarrow> map_of d k = Some v"
  by (auto simp: item_def split: option.splits)

section \<open>The query\<close>

lemma selected_True:
  assumes "selected db images movies p = Inr True"
  shows "\<exists>b t. photo_field db p ''burst'' = Some b
           \<and> (truthy b \<longrightarrow> (\<exists>k. photo_field db p ''burst_key'' = Some k \<and> truthy k))
           \<and> photo_field db p ''type'' = Some t
           \<and> ((images \<and> t = PHOTO_TYPE) \<or> (movies \<and> t = MOVIE_TYPE))"
  using assms unfolding selected_def photo_field_def
  by (auto simp: bnd_Inr item_Inr split: if_splits)

lemma photos_member:
  assumes "photos db keywords uuid persons albums images movies from_date to_date = Inr result"
      and "p \<in> result"
  shows "selected db images movies p = Inr True"
  using assms unfolding photos_def
  by (auto simp: bnd_Inr Let_def split: if_splits)

lemma pets_ingested: "build5 pets5 (new_db ''6000'' []) = Inr pets_db"
  unfolding pets_db_def by code_simp

lemma mixed_ingested: "build5 mixed5 (new_db ''6000'' []) = Inr mixed_db"
  unfolding mixed_db_def by code_simp

text \<open>
  C1. The claim: the values of one category are united, the categories are intersected, so
  that the keywords cat and dog select A, B and C, and together with the album Trip select
  C. The source appends one set per value to \<^verbatim>\<open>photos_sets\<close> and intersects them all: on the
  store of the example the two keywords select B alone, and with the album nothing.
\<close>

theorem photos_intersects_every_value:
  "build5 pets5 (new_db ''6000'' []) = Inr pets_db
   \<and> photos pets_db (Some [PStr ''cat'', PStr ''dog'']) None None None True False None None
       = Inr {PStr ''B''}
   \<and> photos pets_db (Some [PStr ''cat'', PStr ''dog'']) None None (Some [PStr ''Trip''])
       True False None None = Inr {}"
proof -
  have "photos pets_db (Some [PStr ''cat'', PStr ''dog'']) None None None True False None None
          = Inr {PStr ''B''}"
    unfolding pets_db_def by code_simp
  moreover
  have "photos pets_db (Some [PStr ''cat'', PStr ''dog'']) None None (Some [PStr ''Trip''])
          True False None None = Inr {}"
    unfolding pets_db_def by code_simp
  ultimately show ?thesis using pets_ingested by simp
qed

text \<open>
  C5. The claim: an asset whose has-keywords flag is set without a keyword row is recovered
  from, and no anomaly of the data ends an ingestion with an exception. The legacy ingester
  reads \<^verbatim>\<open>self._dbkeywords_uuid[uuid]\<close> for such an asset: the run ends with KeyError, and the
  temporary file is left as it was.
\<close>

theorem legacy_stale_keyword_flag_raises:
  "process_database4 False stale4 (new_db ''4025'' [''/tmp/osxphotos-1.db'']) one_copy
     = (Inl KeyError, one_copy)"
  by code_simp

text \<open>
  C7. An asset of the candidate set whose burst flag is true and whose burst-key flag is
  not is left out of what \<^verbatim>\<open>photos\<close> returns, whatever the arguments.
\<close>

theorem photos_drops_non_representative:
  assumes "photos db keywords uuid persons albums images movies from_date to_date = Inr result"
      and "photo_field db p ''burst'' = Some b" and "truthy b"
      and "photo_field db p ''burst_key'' = Some k" and "\<not> truthy k"
  shows "p \<notin> result"
proof
  assume "p \<in> result"
  from photos_member[OF assms(1) this] have "selected db images movies p = Inr True" .
  from selected_True[OF this] assms(2-5) show False by auto
qed

theorem photos_drops_non_representative_witness:
  "photos mixed_db None None None None True False None None
     = Inr {PStr ''I1'', PStr ''B1'', PStr ''B2''}
   \<and> photo_field mixed_db (PStr ''B3'') ''burst'' = Some (PBool True)
   \<and> photo_field mixed_db (PStr ''B3'') ''burst_key'' = Some (PBool False)
   \<and> PStr ''B3'' \<notin> {PStr ''I1'', PStr ''B1'', PStr ''B2''}"
proof -
  have a: "photos mixed_db None None None None True False None None
             = Inr {PStr ''I1'', PStr ''B1'', PStr ''B2''}"
    unfolding mixed_db_def by code_simp
  have b: "photo_field mixed_db (PStr ''B3'') ''burst'' = Some (PBool True)"
    unfolding mixed_db_def by code_simp
  have c: "photo_field mixed_db (PStr ''B3'') ''burst_key'' = Some (PBool False)"
    unfolding mixed_db_def by code_simp
  from photos_drops_non_representative[OF a b _ c] a b c show ?thesis by simp
qed

text \<open>
  C8. An asset is returned only if images are asked for and it is an image, or movies are
  asked for and it is a movie; with the defaults (images, no movies) a movie is not returned.
\<close>

theorem photos_media_type:
  assumes "photos db keywords uuid persons albums images movies from_date to_date = Inr result"
  shows "(p \<in> result \<longrightarrow>
            (\<exists>t. photo_field db p ''type'' = Some t
                 \<and> ((images \<and> t = PHOTO_TYPE) \<or> (movies \<and> t = MOVIE_TYPE))))
       \<and> (images \<and> \<not> movies \<and> photo_field db p ''type'' = Some MOVIE_TYPE \<longrightarrow> p \<notin> result)"
proof -
  have a: "\<exists>t. photo_field db p ''type'' = Some t
                 \<and> ((images \<and> t = PHOTO_TYPE) \<or> (movies \<and> t = MOVIE_TYPE))" if "p \<in> result"
    using selected_True[OF photos_member[OF assms that]] by blast
  have b: "p \<notin> result" if "images" "\<not> movies" "photo_field db p ''type'' = Some MOVIE_TYPE"
  proof
    assume "p \<in> result"
    from a[OF this] that show False by (auto simp: PHOTO_TYPE_def MOVIE_TYPE_def)
  qed
  show ?thesis using a b by blast
qed

theorem photos_media_type_witness:
  "photos mixed_db None None None None True False None None
     = Inr {PStr ''I1'', PStr ''B1'', PStr ''B2''}
   \<and> photo_field mixed_db (PStr ''I1'') ''type'' = Some PHOTO_TYPE
   \<and> photo_field mixed_db (PStr ''M1'') ''type'' = Some MOVIE_TYPE
   \<and> PStr ''I1'' \<in> {PStr ''I1'', PStr ''B1'', PStr ''B2''}
   \<and> PStr ''M1'' \<notin> {PStr ''I1'', PStr ''B1'', PStr ''B2''}"
proof -
  have a: "photos mixed_db None None None None True False None None
             = Inr {PStr ''I1'', PStr ''B1'', PStr ''B2''}"
    unfolding mixed_db_def by code_simp
  have b: "photo_field mixed_db (PStr ''I1'') ''type'' = Some PHOTO_TYPE"
    unfolding mixed_db_def by code_simp
  have c: "photo_field mixed_db (PStr ''M1'') ''type'' = Some MOVIE_TYPE"
    unfolding mixed_db_def by code_simp
  from photos_media_type[OF a, of "PStr ''M1''"] photos_media_type[OF a, of "PStr ''I1''"] a b c
  show ?thesis by simp
qed

text \<open>
  C10. No asset that \<^verbatim>\<open>photos\<close> returns has the kind None, also when images and movies are
  both asked for: an asset whose type code is neither that of an image nor that of a movie
  cannot be reached through the query.
\<close>

theorem photos_never_unknown_kind:
  assumes "photos db keywords uuid persons albums images movies from_date to_date = Inr result"
      and "p \<in> result"
  shows "\<exists>t. photo_field db p ''type'' = Some t \<and> t \<noteq> PNone"
  using selected_True[OF photos_member[OF assms]]
  by (auto simp: PHOTO_TYPE_def MOVIE_TYPE_def)

theorem photos_never_unknown_kind_witness:
  "photos mixed_db None None None None True True None None
     = Inr {PStr ''I1'', PStr ''M1'', PStr ''B1'', PStr ''B2''}
   \<and> photo_field mixed_db (PStr ''U1'') ''type'' = Some PNone
   \<and> PStr ''U1'' \<notin> {PStr ''I1'', PStr ''M1'', PStr ''B1'', PStr ''B2''}
   \<and> (\<exists>t. photo_field mixed_db (PStr ''M1'') ''type'' = Some t \<and> t \<noteq> PNone)"
proof -
  have a: "photos mixed_db None None None None True True None None
             = Inr {PStr ''I1'', PStr ''M1'', PStr ''B1'', PStr ''B2''}"
    unfolding mixed_db_def by code_simp
  have b: "photo_field mixed_db (PStr ''U1'') ''type'' = Some PNone"
    unfolding mixed_db_def by code_simp
  have "PStr ''M1'' \<in> {PStr ''I1'', PStr ''M1'', PStr ''B1'', PStr ''B2''}" by simp
  from photos_never_unknown_kind[OF a this] a b show ?thesis by simp
qed

section \<open>Loops over the index\<close>

lemma map_of_assign_notin:
  "k \<notin> fst ` set kvs \<Longrightarrow> map_of (assign kvs d) k = map_of d k"
  unfolding assign_def
  by (induction kvs arbitrary: d) (auto simp: update_conv')


lemma assign_Nil: "assign [] d = d"
  by (simp add: assign_def)

lemma map_of_None_keys: "map_of d k = None \<longleftrightarrow> k \<notin> keys_of d"
  by (simp add: keys_of_def map_of_eq_None_iff)

lemma set_keys_keys: "map fst (set_keys u f ps) = map fst ps"
  unfolding set_keys_def
  by (auto split: option.splits simp: update_keys map_of_eq_None_iff image_iff)

lemma set_keys_map_of:
  "map_of (set_keys u f ps) u' =
     (if u' = u then map_option (\<lambda>i. assign (f i) i) (map_of ps u) else map_of ps u')"
  unfolding set_keys_def
  by (auto split: option.splits simp: update_conv')

lemma set_keys_Nil: "set_keys u (\<lambda>_. []) ps = ps"
  unfolding set_keys_def
  by (auto split: option.splits simp: assign_Nil update_triv)

lemma fold_err_total: "fold_err (\<lambda>x s. Inr (h x s)) xs s = Inr (fold h xs s)"
  by (induction xs arbitrary: s) auto

lemma fold_err_invariant:
  assumes "fold_err g xs s = Inr s'" and "I s"
      and "\<And>x s t. I s \<Longrightarrow> g x s = Inr t \<Longrightarrow> I t"
  shows "I s'"
  using assms(1,2)
proof (induction xs arbitrary: s)
  case Nil
  then show ?case by simp
next
  case (Cons x xs)
  from Cons.prems(1) obtain t where t: "g x s = Inr t" "fold_err g xs t = Inr s'"
    by (auto split: sum.splits)
  from assms(3)[OF Cons.prems(2) t(1)] have "I t" .
  from Cons.IH[OF t(2) this] show ?case .
qed


text \<open>The same for a property that every assignment of keys of \<open>K\<close> keeps.\<close>

lemma loop_writes:
  assumes "fold_err g xs ps = Inr ps'"
      and "writes_only K g" and "kept_by K P" and "every_record P ps"
  shows "map fst ps' = map fst ps \<and> every_record P ps'"
proof (rule fold_err_invariant[where I = "\<lambda>qs. map fst qs = map fst ps \<and> every_record P qs",
        OF assms(1)])
  show "map fst ps = map fst ps \<and> every_record P ps"
    using assms(4) by simp
next
  fix x s t
  assume I: "map fst s = map fst ps \<and> every_record P s"
     and g: "g x s = Inr t"
  from g assms(2) obtain u f where f: "t = set_keys u f s" "\<And>i. fst ` set (f i) \<subseteq> K"
    unfolding writes_only_def by blast
  have "P u' i" if "map_of t u' = Some i" for u' i
  proof (cases "u' = u")
    case True
    with that f(1) obtain i0 where i0: "map_of s u = Some i0" "i = assign (f i0) i0"
      by (auto simp: set_keys_map_of)
    from I i0(1) have "P u i0" by (simp add: every_record_def)
    moreover from assms(3)
    have "fst ` set (f i0) \<subseteq> K \<longrightarrow> P u i0 \<longrightarrow> P u (assign (f i0) i0)"
      unfolding kept_by_def by (elim allE)
    ultimately show ?thesis using f(2)[of i0] i0(2) True by simp
  next
    case False
    with that f(1) I show ?thesis by (simp add: set_keys_map_of every_record_def)
  qed
  with I f(1) show "map fst t = map fst ps \<and> every_record P t"
    by (simp add: set_keys_keys every_record_def)
qed

lemma fold_writes:
  assumes "writes_only K (\<lambda>x s. Inr (h x s))" and "kept_by K P" and "every_record P ps"
  shows "map fst (fold h xs ps) = map fst ps \<and> every_record P (fold h xs ps)"
  by (rule loop_writes[where g = "\<lambda>x s. Inr (h x s)" and K = K, OF fold_err_total assms])

section \<open>The shape of the loops of the ingesters\<close>

lemma edit_step4_shape:
  assumes "edit_step4 row qs = Inr qs'"
  shows "qs' = set_keys (row 0) (\<lambda>_. []) qs
         \<or> qs' = set_keys (row 0) (\<lambda>_. [(''edit_resource_id'', row 2)]) qs"
  using assms unfolding edit_step4_def
  by (auto simp: bnd_Inr set_keys_Nil split: option.splits if_splits)

lemma attach_step4_shape:
  assumes "attach_step4 db u qs = Inr qs'"
  shows "\<exists>kws vol.
           qs' = set_keys u (\<lambda>_. [(''keywords'', kws)] @ persons_albums db u
                                  @ [(''volume'', vol)]) qs"
  using assms unfolding attach_step4_def
  by (auto simp: bnd_Inr)

lemma persons_albums_keys:
  "map fst (persons_albums db u) = [''hasPersons'', ''persons'', ''albums'', ''hasAlbums'']"
  unfolding persons_albums_def by (simp split: option.splits)

lemma attach5_keys:
  "map fst (attach5 db u)
     = [''hasKeywords'', ''keywords'', ''hasPersons'', ''persons'', ''albums'', ''hasAlbums'']"
  unfolding attach5_def by (simp add: persons_albums_keys split: option.splits)

lemma fst_set: "fst ` set kvs = set (map fst kvs)"
  by simp

lemma backfill4_keys:
  "fst ` set (backfill4 i) \<subseteq> {''edit_resource_id'', ''live_model_id'', ''modeResourceIsOnDisk''}"
  unfolding backfill4_def
  by (cases "map_of i ''edit_resource_id''"; cases "map_of i ''live_model_id''"; simp)

lemma writes_onlyI:
  assumes "\<And>x qs. \<exists>u f. h x qs = set_keys u f qs \<and> (\<forall>i. fst ` set (f i) \<subseteq> K)"
  shows "writes_only K (\<lambda>x s. Inr (h x s))"
  unfolding writes_only_def using assms by auto

lemma edit_step4_writes: "writes_only later_keys4 edit_step4"
  unfolding writes_only_def
proof (intro allI impI)
  fix row qs qs' assume "edit_step4 row qs = Inr qs'"
  from edit_step4_shape[OF this]
  show "\<exists>u f. qs' = set_keys u f qs \<and> (\<forall>i. fst ` set (f i) \<subseteq> later_keys4)"
  proof
    assume "qs' = set_keys (row 0) (\<lambda>_. []) qs"
    then show ?thesis by (intro exI[of _ "row 0"] exI[of _ "\<lambda>_. []"]) simp
  next
    assume "qs' = set_keys (row 0) (\<lambda>_. [(''edit_resource_id'', row 2)]) qs"
    then show ?thesis
      by (intro exI[of _ "row 0"] exI[of _ "\<lambda>_. [(''edit_resource_id'', row 2)]"])
         (simp add: later_keys4_def)
  qed
qed

lemma adjustment_step4_writes: "writes_only later_keys4 (\<lambda>x s. Inr (adjustment_step4 x s))"
  unfolding adjustment_step4_def
  by (rule writes_onlyI, intro exI conjI, rule refl) (simp add: later_keys4_def)

lemma live_step4_writes: "writes_only later_keys4 (\<lambda>x s. Inr (live_step4 x s))"
  unfolding live_step4_def
  by (rule writes_onlyI, intro exI conjI, rule refl) (simp add: later_keys4_def)

lemma backfill4_writes: "writes_only later_keys4 (\<lambda>u s. Inr (set_keys u backfill4 s))"
  by (rule writes_onlyI, intro exI conjI, rule refl)
     (intro allI, rule subset_trans[OF backfill4_keys], simp add: later_keys4_def)

lemma cloud_step4_writes: "writes_only later_keys4 (\<lambda>x s. Inr (cloud_step4 x s))"
  unfolding cloud_step4_def
  by (rule writes_onlyI, intro exI conjI, rule refl) (simp add: later_keys4_def)

lemma attach_step4_writes: "writes_only later_keys4 (attach_step4 db)"
  unfolding writes_only_def
proof (intro allI impI)
  fix u qs qs' assume "attach_step4 db u qs = Inr qs'"
  from attach_step4_shape[OF this] obtain kws vol where
    "qs' = set_keys u (\<lambda>_. [(''keywords'', kws)] @ persons_albums db u
                             @ [(''volume'', vol)]) qs" by blast
  then show "\<exists>u f. qs' = set_keys u f qs \<and> (\<forall>i. fst ` set (f i) \<subseteq> later_keys4)"
    by (intro exI[of _ u] exI[of _ "\<lambda>_. [(''keywords'', kws)] @ persons_albums db u
                             @ [(''volume'', vol)]"])
       (simp add: later_keys4_def fst_set persons_albums_keys del: set_map)
qed

lemma description_step5_writes: "writes_only later_keys5 (\<lambda>x s. Inr (description_step5 x s))"
  unfolding description_step5_def
  by (rule writes_onlyI, intro exI conjI, rule refl) (simp add: later_keys5_def)

lemma adjustment_step5_writes: "writes_only later_keys5 (\<lambda>x s. Inr (adjustment_step5 x s))"
  unfolding adjustment_step5_def
  by (rule writes_onlyI, intro exI conjI, rule refl) (simp add: later_keys5_def)

lemma availability_step5_writes: "writes_only later_keys5 (\<lambda>x s. Inr (availability_step5 x s))"
  unfolding availability_step5_def
  by (rule writes_onlyI, intro exI conjI, rule refl) (simp add: later_keys5_def)

lemma cloud_step5_last: "writes_only last_keys5 (\<lambda>x s. Inr (cloud_step5 x s))"
  unfolding cloud_step5_def
  by (rule writes_onlyI, intro exI conjI, rule refl) (simp add: last_keys5_def)

lemma attach5_last: "writes_only last_keys5 (\<lambda>u s. Inr (set_keys u (\<lambda>_. attach5 db u) s))"
  by (rule writes_onlyI, intro exI conjI, rule refl) (simp add: last_keys5_def fst_set attach5_keys del: set_map)

lemma writes_only_mono: "writes_only K g \<Longrightarrow> K \<subseteq> K' \<Longrightarrow> writes_only K' g"
  unfolding writes_only_def by (meson subset_trans)

lemma last_keys5_later: "last_keys5 \<subseteq> later_keys5"
  unfolding later_keys5_def by blast

lemma build4_Inr:
  assumes "build4 raw db = Inr db'"
  shows "\<exists>main p1 p2 p3 p4 p5.
           fold_err photo_step4 (photos4 raw) (dbphotos db, dbphotos_burst db) = Inr main
         \<and> fold_err edit_step4 (resources4 raw) (fst main) = Inr p1
         \<and> p2 = fold adjustment_step4 (adjustments4 raw) p1
         \<and> p3 = fold live_step4 (live4 raw) p2
         \<and> p4 = fold (\<lambda>u. set_keys u backfill4) (map fst p3) p3
         \<and> p5 = fold cloud_step4 (cloud4 raw) p4
         \<and> fold_err (attach_step4 (cross_references4 raw db)) (map fst p5) p5
             = Inr (dbphotos db')
         \<and> dbphotos_burst db' = snd main"
  using assms unfolding build4_def Let_def
  by (auto simp: bnd_Inr)

lemma build5_Inr:
  assumes "build5 raw db = Inr db'"
  shows "\<exists>main p1 p2 p3 p4 p5.
           fold_err photo_step5 (photos5 raw) (dbphotos db, dbphotos_burst db) = Inr main
         \<and> p1 = fold description_step5 (descriptions5 raw) (fst main)
         \<and> p2 = fold adjustment_step5 (adjustments5 raw) p1
         \<and> p3 = fold availability_step5 (availability_subtype5 raw) p2
         \<and> p4 = fold availability_step5 (availability_fingerprint5 raw) p3
         \<and> p5 = fold cloud_step5 (cloud5 raw) p4
         \<and> dbphotos db'
             = fold (\<lambda>u. set_keys u (\<lambda>_. attach5 (cross_references5 raw db) u)) (map fst p5) p5
         \<and> dbphotos_burst db' = snd main"
  using assms unfolding build5_def Let_def
  by (auto simp: bnd_Inr)

lemma cleanup_tmp_files_Inr:
  assumes "cleanup_tmp_files dbg db w = (Inr db', w')"
  shows "\<exists>fs. db' = db \<lparr> tmp_files := fs \<rparr>"
  using assms unfolding cleanup_tmp_files_def
  by (auto split: prod.splits option.splits)

lemma process_database4_Inr:
  assumes "process_database4 dbg raw db w = (Inr db', w')"
  shows "\<exists>db1 fs. build4 raw db = Inr db1 \<and> db' = db1 \<lparr> tmp_files := fs \<rparr>"
  using assms cleanup_tmp_files_Inr unfolding process_database4_def
  by (auto split: sum.splits)

lemma process_database5_Inr:
  assumes "process_database5 dbg raw db w = (Inr db', w')"
  shows "\<exists>db1 fs. build5 raw db = Inr db1 \<and> db' = db1 \<lparr> tmp_files := fs \<rparr>"
  using assms cleanup_tmp_files_Inr unfolding process_database5_def
  by (auto split: sum.splits)

lemma main4_info:
  assumes "fold_err photo_step4 rows s = Inr s'"
      and "every_record P (fst s)"
      and "\<And>row i. photo_info4 row = Inr i \<Longrightarrow> P (row 0) i"
  shows "every_record P (fst s')"
  by (rule fold_err_invariant[where I = "\<lambda>s. every_record P (fst s)", OF assms(1,2)])
     (auto simp: every_record_def photo_step4_def bnd_Inr update_conv' assms(3) split: if_splits)

lemma main5_info:
  assumes "fold_err photo_step5 rows s = Inr s'"
      and "every_record P (fst s)"
      and "\<And>row i. photo_info5 row = Inr i \<Longrightarrow> P (row 0) i"
  shows "every_record P (fst s')"
  by (rule fold_err_invariant[where I = "\<lambda>s. every_record P (fst s)", OF assms(1,2)])
     (auto simp: every_record_def photo_step5_def bnd_Inr update_conv' assms(3) split: if_splits)

text \<open>
  What the main loop establishes for every record, and every assignment of the later loops
  keeps, holds in the index.
\<close>

lemma legacy_later_kept:
  assumes "build4 raw db = Inr db'"
      and init: "every_record P (dbphotos db)"
      and est: "\<And>row i. photo_info4 row = Inr i \<Longrightarrow> P (row 0) i"
      and st: "kept_by later_keys4 P"
  shows "every_record P (dbphotos db')"
proof -
  from build4_Inr[OF assms(1)] obtain main p1 p2 p3 p4 p5 where d:
    "fold_err photo_step4 (photos4 raw) (dbphotos db, dbphotos_burst db) = Inr main"
    "fold_err edit_step4 (resources4 raw) (fst main) = Inr p1"
    "p2 = fold adjustment_step4 (adjustments4 raw) p1"
    "p3 = fold live_step4 (live4 raw) p2"
    "p4 = fold (\<lambda>u. set_keys u backfill4) (map fst p3) p3"
    "p5 = fold cloud_step4 (cloud4 raw) p4"
    "fold_err (attach_step4 (cross_references4 raw db)) (map fst p5) p5 = Inr (dbphotos db')"
    by blast
  have 0: "every_record P (fst main)"
  proof (rule main4_info[OF d(1)])
    show "every_record P (fst (dbphotos db, dbphotos_burst db))" using init by simp
    show "P (row 0) i" if "photo_info4 row = Inr i" for row i using est[OF that] .
  qed
  have 1: "every_record P p1"
    using loop_writes[OF d(2) edit_step4_writes st 0] by simp
  have 2: "every_record P p2"
    unfolding d(3) using fold_writes[OF adjustment_step4_writes st 1] by simp
  have 3: "every_record P p3"
    unfolding d(4) using fold_writes[OF live_step4_writes st 2] by simp
  have 4: "every_record P p4"
    unfolding d(5) using fold_writes[OF backfill4_writes st 3] by simp
  have 5: "every_record P p5"
    unfolding d(6) using fold_writes[OF cloud_step4_writes st 4] by simp
  show ?thesis
    using loop_writes[OF d(7) attach_step4_writes st 5] by simp
qed

lemma modern_last_kept:
  assumes "every_record P p4" and st: "kept_by last_keys5 P"
  shows "every_record P
           (fold (\<lambda>u. set_keys u (\<lambda>_. attach5 db1 u)) (map fst (fold cloud_step5 rows p4))
              (fold cloud_step5 rows p4))"
proof -
  have 5: "every_record P (fold cloud_step5 rows p4)"
    using fold_writes[OF cloud_step5_last st assms(1)] by simp
  show ?thesis
    using fold_writes[OF attach5_last st 5] by simp
qed

lemma kept_by_mono: "kept_by K' P \<Longrightarrow> K \<subseteq> K' \<Longrightarrow> kept_by K P"
  unfolding kept_by_def by (meson subset_trans)

lemma modern_later_kept:
  assumes "build5 raw db = Inr db'"
      and init: "every_record P (dbphotos db)"
      and est: "\<And>row i. photo_info5 row = Inr i \<Longrightarrow> P (row 0) i"
      and st: "kept_by later_keys5 P"
  shows "every_record P (dbphotos db')"
proof -
  from build5_Inr[OF assms(1)] obtain main p1 p2 p3 p4 p5 where d:
    "fold_err photo_step5 (photos5 raw) (dbphotos db, dbphotos_burst db) = Inr main"
    "p1 = fold description_step5 (descriptions5 raw) (fst main)"
    "p2 = fold adjustment_step5 (adjustments5 raw) p1"
    "p3 = fold availability_step5 (availability_subtype5 raw) p2"
    "p4 = fold availability_step5 (availability_fingerprint5 raw) p3"
    "p5 = fold cloud_step5 (cloud5 raw) p4"
    "dbphotos db'
       = fold (\<lambda>u. set_keys u (\<lambda>_. attach5 (cross_references5 raw db) u)) (map fst p5) p5"
    by blast
  have 0: "every_record P (fst main)"
  proof (rule main5_info[OF d(1)])
    show "every_record P (fst (dbphotos db, dbphotos_burst db))" using init by simp
    show "P (row 0) i" if "photo_info5 row = Inr i" for row i using est[OF that] .
  qed
  have 1: "every_record P p1"
    unfolding d(2) using fold_writes[OF description_step5_writes st 0] by simp
  have 2: "every_record P p2"
    unfolding d(3) using fold_writes[OF adjustment_step5_writes st 1] by simp
  have 3: "every_record P p3"
    unfolding d(4) using fold_writes[OF availability_step5_writes st 2] by simp
  have 4: "every_record P p4"
    unfolding d(5) using fold_writes[OF availability_step5_writes st 3] by simp
  show ?thesis
    unfolding d(7) d(6)
    using modern_last_kept[OF 4 kept_by_mono[OF st last_keys5_later]] .
qed

lemma assign_outside:
  "fst ` set kvs \<subseteq> K \<Longrightarrow> k \<notin> K \<Longrightarrow> map_of (assign kvs i) k = map_of i k"
  by (rule map_of_assign_notin) auto

lemma photo_field_Some:
  "map_of (dbphotos db) u = Some i \<Longrightarrow> photo_field db u k = map_of i k"
  by (simp add: photo_field_def)

lemma keys_of_map_of: "u \<in> keys_of d \<longleftrightarrow> (\<exists>v. map_of d u = Some v)"
  using map_of_None_keys[of d u] by auto

lemma keys_of_map_fst: "keys_of d = set (map fst d)"
  by (simp add: keys_of_def)

lemma every_record_True: "every_record (\<lambda>_ _. True) ps"
  by (simp add: every_record_def)

lemma kept_by_True: "kept_by K (\<lambda>_ _. True)"
  by (simp add: kept_by_def)

lemma every_record_new_db: "every_record P (dbphotos (new_db v tmps))"
  by (simp add: every_record_def new_db_def)

section \<open>Burst groups\<close>

lemma burst_keys_not_later4:
  "''burstUUID'' \<notin> later_keys4" "''burstPickType'' \<notin> later_keys4"
  "''burst'' \<notin> later_keys4" "''burst_key'' \<notin> later_keys4"
  by (simp_all add: later_keys4_def)

lemma burst_keys_not_later5:
  "''burstUUID'' \<notin> later_keys5" "''burstPickType'' \<notin> later_keys5"
  "''burst'' \<notin> later_keys5" "''burst_key'' \<notin> later_keys5"
  by (simp_all add: later_keys5_def last_keys5_def)

lemma burst_fields_kept4: "kept_by later_keys4 (\<lambda>_. burst_fields_ok)"
  unfolding kept_by_def burst_fields_ok_def
  by (simp add: assign_outside[where K = later_keys4] burst_keys_not_later4)

lemma burst_fields_kept5: "kept_by later_keys5 (\<lambda>_. burst_fields_ok)"
  unfolding kept_by_def burst_fields_ok_def
  by (simp add: assign_outside[where K = later_keys5] burst_keys_not_later5)

lemma photo_info4_burst: "photo_info4 row = Inr i \<Longrightarrow> burst_fields_ok i"
  unfolding photo_info4_def burst_fields_ok_def burst_key_of_def
  by (auto simp: bnd_Inr)

lemma photo_info5_burst: "photo_info5 row = Inr i \<Longrightarrow> burst_fields_ok i"
  unfolding photo_info5_def burst_fields_ok_def burst_key_of_def
  by (auto simp: bnd_Inr)

text \<open>The loops after the main loop keep the uuids of the index and their order.\<close>

lemma legacy_later_uuids:
  assumes "build4 raw db = Inr db'"
  shows "\<exists>main. fold_err photo_step4 (photos4 raw) (dbphotos db, dbphotos_burst db) = Inr main
           \<and> map fst (dbphotos db') = map fst (fst main) \<and> dbphotos_burst db' = snd main"
proof -
  from build4_Inr[OF assms(1)] obtain main p1 p2 p3 p4 p5 where d:
    "fold_err photo_step4 (photos4 raw) (dbphotos db, dbphotos_burst db) = Inr main"
    "fold_err edit_step4 (resources4 raw) (fst main) = Inr p1"
    "p2 = fold adjustment_step4 (adjustments4 raw) p1"
    "p3 = fold live_step4 (live4 raw) p2"
    "p4 = fold (\<lambda>u. set_keys u backfill4) (map fst p3) p3"
    "p5 = fold cloud_step4 (cloud4 raw) p4"
    "fold_err (attach_step4 (cross_references4 raw db)) (map fst p5) p5 = Inr (dbphotos db')"
    "dbphotos_burst db' = snd main"
    by blast
  note t = kept_by_True every_record_True
  have 1: "map fst p1 = map fst (fst main)"
    using loop_writes[OF d(2) edit_step4_writes t] by simp
  have 2: "map fst p2 = map fst p1"
    unfolding d(3) using fold_writes[OF adjustment_step4_writes t] by simp
  have 3: "map fst p3 = map fst p2"
    unfolding d(4) using fold_writes[OF live_step4_writes t] by simp
  have 4: "map fst p4 = map fst p3"
    unfolding d(5) using fold_writes[OF backfill4_writes t] by simp
  have 5: "map fst p5 = map fst p4"
    unfolding d(6) using fold_writes[OF cloud_step4_writes t] by simp
  have 6: "map fst (dbphotos db') = map fst p5"
    using loop_writes[OF d(7) attach_step4_writes t] by simp
  show ?thesis using d(1,8) 1 2 3 4 5 6 by simp
qed

lemma modern_later_uuids:
  assumes "build5 raw db = Inr db'"
  shows "\<exists>main. fold_err photo_step5 (photos5 raw) (dbphotos db, dbphotos_burst db) = Inr main
           \<and> map fst (dbphotos db') = map fst (fst main) \<and> dbphotos_burst db' = snd main"
proof -
  from build5_Inr[OF assms(1)] obtain main p1 p2 p3 p4 p5 where d:
    "fold_err photo_step5 (photos5 raw) (dbphotos db, dbphotos_burst db) = Inr main"
    "p1 = fold description_step5 (descriptions5 raw) (fst main)"
    "p2 = fold adjustment_step5 (adjustments5 raw) p1"
    "p3 = fold availability_step5 (availability_subtype5 raw) p2"
    "p4 = fold availability_step5 (availability_fingerprint5 raw) p3"
    "p5 = fold cloud_step5 (cloud5 raw) p4"
    "dbphotos db'
       = fold (\<lambda>u. set_keys u (\<lambda>_. attach5 (cross_references5 raw db) u)) (map fst p5) p5"
    "dbphotos_burst db' = snd main"
    by blast
  note t = kept_by_True every_record_True
  have 1: "map fst p1 = map fst (fst main)"
    unfolding d(2) using fold_writes[OF description_step5_writes t] by simp
  have 2: "map fst p2 = map fst p1"
    unfolding d(3) using fold_writes[OF adjustment_step5_writes t] by simp
  have 3: "map fst p3 = map fst p2"
    unfolding d(4) using fold_writes[OF availability_step5_writes t] by simp
  have 4: "map fst p4 = map fst p3"
    unfolding d(5) using fold_writes[OF availability_step5_writes t] by simp
  have 5: "map fst p5 = map fst p4"
    unfolding d(6) using fold_writes[OF cloud_step5_last t] by simp
  have 6: "map fst (dbphotos db') = map fst p5"
    unfolding d(7) using fold_writes[OF attach5_last t] by simp
  show ?thesis using d(1,8) 1 2 3 4 5 6 by simp
qed

lemma groups_ok_step:
  assumes "groups_ok (ps, bs)"
  shows "groups_ok (AList.update u i ps, burst_add g u bs)"
  using assms unfolding groups_ok_def burst_add_def keys_of_def
  by (auto simp: update_conv' dom_update split: option.splits if_splits)

lemma groups_ok_main4:
  assumes "fold_err photo_step4 rows s = Inr s'" and "groups_ok s"
  shows "groups_ok s'"
  by (rule fold_err_invariant[where I = groups_ok, OF assms])
     (auto simp: photo_step4_def bnd_Inr groups_ok_step)

lemma groups_ok_main5:
  assumes "fold_err photo_step5 rows s = Inr s'" and "groups_ok s"
  shows "groups_ok s'"
  by (rule fold_err_invariant[where I = groups_ok, OF assms])
     (auto simp: photo_step5_def bnd_Inr groups_ok_step)

lemma groups_ok_new_db: "groups_ok (dbphotos (new_db v tmps), dbphotos_burst (new_db v tmps))"
  by (simp add: groups_ok_def new_db_def)

lemma ingested_bursts:
  assumes "build4 raw4 (new_db v tmps) = Inr db \<or> build5 raw5 (new_db v tmps) = Inr db"
  shows "groups_ok (dbphotos db, dbphotos_burst db) \<and> every_record (\<lambda>_. burst_fields_ok) (dbphotos db)"
  using assms
proof
  assume b: "build4 raw4 (new_db v tmps) = Inr db"
  from legacy_later_uuids[OF b] obtain main where
    m: "fold_err photo_step4 (photos4 raw4)
          (dbphotos (new_db v tmps), dbphotos_burst (new_db v tmps)) = Inr main"
       "map fst (dbphotos db) = map fst (fst main)" "dbphotos_burst db = snd main" by blast
  from groups_ok_main4[OF m(1) groups_ok_new_db] m(2,3)
  have "groups_ok (dbphotos db, dbphotos_burst db)"
    by (simp add: groups_ok_def keys_of_map_fst)
  moreover have "every_record (\<lambda>_. burst_fields_ok) (dbphotos db)"
    by (rule legacy_later_kept[OF b every_record_new_db photo_info4_burst burst_fields_kept4])
  ultimately show ?thesis by simp
next
  assume b: "build5 raw5 (new_db v tmps) = Inr db"
  from modern_later_uuids[OF b] obtain main where
    m: "fold_err photo_step5 (photos5 raw5)
          (dbphotos (new_db v tmps), dbphotos_burst (new_db v tmps)) = Inr main"
       "map fst (dbphotos db) = map fst (fst main)" "dbphotos_burst db = snd main" by blast
  from groups_ok_main5[OF m(1) groups_ok_new_db] m(2,3)
  have "groups_ok (dbphotos db, dbphotos_burst db)"
    by (simp add: groups_ok_def keys_of_map_fst)
  moreover have "every_record (\<lambda>_. burst_fields_ok) (dbphotos db)"
    by (rule modern_later_kept[OF b every_record_new_db photo_info5_burst burst_fields_kept5])
  ultimately show ?thesis by simp
qed

text \<open>
  What the main loop does with one row: it stores a record whose burst uuid is that of the
  row, and adds the asset to the burst group of that uuid.
\<close>

lemma tied_step:
  assumes "groups_tied (ps, bs)" and "u \<notin> keys_of ps"
      and "map_of i ''burstUUID'' = Some g"
  shows "groups_tied (AList.update u i ps, burst_add g u bs)"
proof -
  have n: "map_of ps u = None" using assms(2) by (simp add: map_of_None_keys)
  have old: "g' \<noteq> PNone \<and> (\<forall>x\<in>m. \<exists>j. map_of (AList.update u i ps) x = Some j
                 \<and> map_of j ''burstUUID'' = Some g')"
    if "map_of bs g' = Some m" for g' m
  proof -
    from assms(1) that have 1: "g' \<noteq> PNone"
      and 2: "\<forall>x\<in>m. \<exists>j. map_of ps x = Some j \<and> map_of j ''burstUUID'' = Some g'"
      unfolding groups_tied_def by auto
    have "\<exists>j. map_of (AList.update u i ps) x = Some j \<and> map_of j ''burstUUID'' = Some g'"
      if "x \<in> m" for x
    proof -
      from 2 that obtain j where j: "map_of ps x = Some j" "map_of j ''burstUUID'' = Some g'"
        by auto
      with n have "x \<noteq> u" by auto
      with j show ?thesis by (simp add: update_conv')
    qed
    with 1 show ?thesis by simp
  qed
  show ?thesis
  proof (cases "g = PNone")
    case True
    then show ?thesis using old unfolding groups_tied_def burst_add_def by simp
  next
    case False
    have "g' \<noteq> PNone \<and> (\<forall>x\<in>m. \<exists>j. map_of (AList.update u i ps) x = Some j
                 \<and> map_of j ''burstUUID'' = Some g')"
      if m: "map_of (burst_add g u bs) g' = Some m" for g' m
    proof (cases "g' = g")
      case ne: False
      with m False have "map_of bs g' = Some m"
        by (simp add: burst_add_def update_conv')
      then show ?thesis by (rule old)
    next
      case True
      with m False have
        m': "m = insert u (case map_of bs g of None \<Rightarrow> {} | Some s \<Rightarrow> s)"
        by (simp add: burst_add_def update_conv')
      have "\<exists>j. map_of (AList.update u i ps) x = Some j \<and> map_of j ''burstUUID'' = Some g'"
        if "x \<in> m" for x
      proof (cases "x = u")
        case True
        then show ?thesis using assms(3) \<open>g' = g\<close> by (simp add: update_conv')
      next
        case xu: False
        with that m' obtain s where s: "map_of bs g = Some s" "x \<in> s"
          by (auto split: option.splits)
        from old[OF s(1)] s(2) show ?thesis using \<open>g' = g\<close> by simp
      qed
      with False True show ?thesis by simp
    qed
    then show ?thesis unfolding groups_tied_def by simp
  qed
qed

lemma tied_main:
  assumes "fold_err f rows s = Inr s'"
      and step: "\<And>row s t. f row s = Inr t \<Longrightarrow>
                   \<exists>i. map_of i ''burstUUID'' = Some (b row)
                     \<and> t = (AList.update (row 0) i (fst s), burst_add (b row) (row 0) (snd s))"
      and "groups_tied s" and "distinct (map (\<lambda>row. row 0) rows)"
      and "keys_of (fst s) \<inter> (\<lambda>row. row 0) ` set rows = {}"
  shows "groups_tied s'"
  using assms(1,3,4,5)
proof (induction rows arbitrary: s)
  case Nil
  then show ?case by simp
next
  case (Cons row rows)
  from Cons.prems(1) obtain t where t: "f row s = Inr t" "fold_err f rows t = Inr s'"
    by (auto split: sum.splits)
  from step[OF t(1)] obtain i where i: "map_of i ''burstUUID'' = Some (b row)"
    "t = (AList.update (row 0) i (fst s), burst_add (b row) (row 0) (snd s))" by blast
  from Cons.prems(4) have fresh: "row 0 \<notin> keys_of (fst s)" by auto
  from Cons.prems(2) have "groups_tied (fst s, snd s)" by simp
  from tied_step[OF this fresh i(1)] have 1: "groups_tied t" unfolding i(2) .
  from Cons.prems(3) have 2: "distinct (map (\<lambda>row. row 0) rows)" by simp
  have "x \<in> keys_of (fst t) \<longleftrightarrow> x = row 0 \<or> x \<in> keys_of (fst s)" for x
    unfolding i(2) by (simp add: keys_of_map_of update_conv')
  then have "keys_of (fst t) = insert (row 0) (keys_of (fst s))"
    by (intro set_eqI) simp
  with Cons.prems(3,4) have 3: "keys_of (fst t) \<inter> (\<lambda>row. row 0) ` set rows = {}"
    by auto
  from Cons.IH[OF t(2) 1 2 3] show ?case .
qed

lemma photo_step4_tied:
  assumes "photo_step4 row s = Inr t"
  shows "\<exists>i. map_of i ''burstUUID'' = Some (row 23)
           \<and> t = (AList.update (row 0) i (fst s), burst_add (row 23) (row 0) (snd s))"
proof -
  from assms obtain i where i: "photo_info4 row = Inr i"
    "t = (AList.update (row 0) i (fst s), burst_add (row 23) (row 0) (snd s))"
    unfolding photo_step4_def by (auto simp: bnd_Inr)
  from i(1) have "map_of i ''burstUUID'' = Some (row 23)"
    unfolding photo_info4_def by (auto simp: bnd_Inr)
  with i(2) show ?thesis by blast
qed

lemma photo_step5_tied:
  assumes "photo_step5 row s = Inr t"
  shows "\<exists>i. map_of i ''burstUUID'' = Some (row 19)
           \<and> t = (AList.update (row 0) i (fst s), burst_add (row 19) (row 0) (snd s))"
proof -
  from assms obtain i where i: "photo_info5 row = Inr i"
    "t = (AList.update (row 0) i (fst s), burst_add (row 19) (row 0) (snd s))"
    unfolding photo_step5_def by (auto simp: bnd_Inr)
  from i(1) have "map_of i ''burstUUID'' = Some (row 19)"
    unfolding photo_info5_def by (auto simp: bnd_Inr)
  with i(2) show ?thesis by blast
qed

lemma groups_tied_new_db: "groups_tied (dbphotos (new_db v tmps), dbphotos_burst (new_db v tmps))"
  by (simp add: groups_tied_def new_db_def)

lemma keys_of_new_db: "keys_of (dbphotos (new_db v tmps)) = {}"
  by (simp add: keys_of_def new_db_def)

text \<open>The loops after the main loop keep what their assignments keep.\<close>

lemma legacy_after_main:
  assumes "build4 raw db = Inr db'"
      and main: "fold_err photo_step4 (photos4 raw) (dbphotos db, dbphotos_burst db) = Inr main"
      and st: "kept_by later_keys4 P" and 0: "every_record P (fst main)"
  shows "dbphotos_burst db' = snd main \<and> every_record P (dbphotos db')"
proof -
  from build4_Inr[OF assms(1)] obtain main' p1 p2 p3 p4 p5 where d':
    "fold_err photo_step4 (photos4 raw) (dbphotos db, dbphotos_burst db) = Inr main'"
    "fold_err edit_step4 (resources4 raw) (fst main') = Inr p1"
    "p2 = fold adjustment_step4 (adjustments4 raw) p1"
    "p3 = fold live_step4 (live4 raw) p2"
    "p4 = fold (\<lambda>u. set_keys u backfill4) (map fst p3) p3"
    "p5 = fold cloud_step4 (cloud4 raw) p4"
    "fold_err (attach_step4 (cross_references4 raw db)) (map fst p5) p5 = Inr (dbphotos db')"
    "dbphotos_burst db' = snd main'"
    by blast
  from d'(1) main have "main' = main" by simp
  note d = d'[unfolded this]
  have 1: "every_record P p1"
    using loop_writes[OF d(2) edit_step4_writes st 0] by simp
  have 2: "every_record P p2"
    unfolding d(3) using fold_writes[OF adjustment_step4_writes st 1] by simp
  have 3: "every_record P p3"
    unfolding d(4) using fold_writes[OF live_step4_writes st 2] by simp
  have 4: "every_record P p4"
    unfolding d(5) using fold_writes[OF backfill4_writes st 3] by simp
  have 5: "every_record P p5"
    unfolding d(6) using fold_writes[OF cloud_step4_writes st 4] by simp
  have "every_record P (dbphotos db')"
    using loop_writes[OF d(7) attach_step4_writes st 5] by simp
  with d(8) show ?thesis by simp
qed

lemma modern_after_main:
  assumes "build5 raw db = Inr db'"
      and main: "fold_err photo_step5 (photos5 raw) (dbphotos db, dbphotos_burst db) = Inr main"
      and st: "kept_by later_keys5 P" and 0: "every_record P (fst main)"
  shows "dbphotos_burst db' = snd main \<and> every_record P (dbphotos db')"
proof -
  from build5_Inr[OF assms(1)] obtain main' p1 p2 p3 p4 p5 where d':
    "fold_err photo_step5 (photos5 raw) (dbphotos db, dbphotos_burst db) = Inr main'"
    "p1 = fold description_step5 (descriptions5 raw) (fst main')"
    "p2 = fold adjustment_step5 (adjustments5 raw) p1"
    "p3 = fold availability_step5 (availability_subtype5 raw) p2"
    "p4 = fold availability_step5 (availability_fingerprint5 raw) p3"
    "p5 = fold cloud_step5 (cloud5 raw) p4"
    "dbphotos db'
       = fold (\<lambda>u. set_keys u (\<lambda>_. attach5 (cross_references5 raw db) u)) (map fst p5) p5"
    "dbphotos_burst db' = snd main'"
    by blast
  from d'(1) main have "main' = main" by simp
  note d = d'[unfolded this]
  have 1: "every_record P p1"
    unfolding d(2) using fold_writes[OF description_step5_writes st 0] by simp
  have 2: "every_record P p2"
    unfolding d(3) using fold_writes[OF adjustment_step5_writes st 1] by simp
  have 3: "every_record P p3"
    unfolding d(4) using fold_writes[OF availability_step5_writes st 2] by simp
  have 4: "every_record P p4"
    unfolding d(5) using fold_writes[OF availability_step5_writes st 3] by simp
  have "every_record P (dbphotos db')"
    unfolding d(7) d(6)
    using modern_last_kept[OF 4 kept_by_mono[OF st last_keys5_later]] .
  with d(8) show ?thesis by simp
qed

text \<open>
  The burst uuid of a record is a field that the later loops do not assign: in the index
  it is what it was after the main loop.
\<close>

lemma burst_uuid_kept4:
  "kept_by later_keys4 (\<lambda>u i. \<forall>j. map_of ps u = Some j \<longrightarrow> map_of i ''burstUUID'' = map_of j ''burstUUID'')"
  unfolding kept_by_def
  by (simp add: assign_outside[where K = later_keys4] burst_keys_not_later4)

lemma burst_uuid_kept5:
  "kept_by later_keys5 (\<lambda>u i. \<forall>j. map_of ps u = Some j \<longrightarrow> map_of i ''burstUUID'' = map_of j ''burstUUID'')"
  unfolding kept_by_def
  by (simp add: assign_outside[where K = later_keys5] burst_keys_not_later5)

lemma tied_members:
  assumes tied: "groups_tied main"
      and same: "every_record (\<lambda>u i. \<forall>j. map_of (fst main) u = Some j \<longrightarrow>
                    map_of i ''burstUUID'' = map_of j ''burstUUID'') ps"
      and ok: "every_record (\<lambda>_. burst_fields_ok) ps"
      and grp: "map_of (snd main) g = Some m" and mem: "u \<in> m"
      and rec: "map_of ps u = Some i"
  shows "g \<noteq> PNone \<and> map_of i ''burstUUID'' = Some g
         \<and> map_of i ''burst'' = Some (PBool True)
         \<and> (\<exists>pick. map_of i ''burstPickType'' = Some pick
              \<and> map_of i ''burst_key'' = Some (PBool (pick \<noteq> PInt 2 \<and> pick \<noteq> PInt 4)))"
proof -
  from tied grp mem obtain j where j: "g \<noteq> PNone" "map_of (fst main) u = Some j"
    "map_of j ''burstUUID'' = Some g"
    unfolding groups_tied_def by blast
  from same rec j(2,3) have b: "map_of i ''burstUUID'' = Some g"
    unfolding every_record_def by simp
  from ok rec have "burst_fields_ok i" by (simp add: every_record_def)
  then obtain g' pick where f:
    "map_of i ''burstUUID'' = Some g'" "map_of i ''burstPickType'' = Some pick"
    "map_of i ''burst'' = Some (PBool (g' \<noteq> PNone))"
    "map_of i ''burst_key'' =
       Some (if g' = PNone then PNone else PBool (pick \<noteq> PInt 2 \<and> pick \<noteq> PInt 4))"
    unfolding burst_fields_ok_def by blast
  from b f(1) have gg: "g' = g" by simp
  show ?thesis
  proof (intro conjI)
    show "g \<noteq> PNone" by (rule j(1))
    show "map_of i ''burstUUID'' = Some g" by (rule b)
    show "map_of i ''burst'' = Some (PBool True)" using f(3) gg j(1) by simp
    show "\<exists>pick. map_of i ''burstPickType'' = Some pick
            \<and> map_of i ''burst_key'' = Some (PBool (pick \<noteq> PInt 2 \<and> pick \<noteq> PInt 4))"
    proof (rule exI[of _ pick], intro conjI)
      show "map_of i ''burstPickType'' = Some pick" by (rule f(2))
      show "map_of i ''burst_key'' = Some (PBool (pick \<noteq> PInt 2 \<and> pick \<noteq> PInt 4))"
        using f(4) gg j(1) by simp
    qed
  qed
qed

lemma same_burst_uuid: 
  "every_record (\<lambda>u i. \<forall>j. map_of ps u = Some j \<longrightarrow>
      map_of i ''burstUUID'' = map_of j ''burstUUID'') ps"
  by (simp add: every_record_def)

lemma ingested_tied:
  assumes "(build4 raw4 (new_db v tmps) = Inr db \<and> distinct (map (\<lambda>row. row 0) (photos4 raw4)))
         \<or> (build5 raw5 (new_db v tmps) = Inr db \<and> distinct (map (\<lambda>row. row 0) (photos5 raw5)))"
  shows "\<exists>main. groups_tied main \<and> dbphotos_burst db = snd main
           \<and> every_record (\<lambda>u i. \<forall>j. map_of (fst main) u = Some j \<longrightarrow>
                    map_of i ''burstUUID'' = map_of j ''burstUUID'') (dbphotos db)"
  using assms
proof
  assume a: "build4 raw4 (new_db v tmps) = Inr db \<and> distinct (map (\<lambda>row. row 0) (photos4 raw4))"
  then have b: "build4 raw4 (new_db v tmps) = Inr db" by (rule conjunct1)
  from legacy_later_uuids[OF b] obtain main where
    m: "fold_err photo_step4 (photos4 raw4)
          (dbphotos (new_db v tmps), dbphotos_burst (new_db v tmps)) = Inr main"
    by (elim exE conjE)
  have t: "groups_tied main"
  proof (rule tied_main[where f = photo_step4 and b = "\<lambda>row. row 23", OF m])
    show "\<exists>i. map_of i ''burstUUID'' = Some (row 23)
            \<and> t = (AList.update (row 0) i (fst s), burst_add (row 23) (row 0) (snd s))"
      if "photo_step4 row s = Inr t" for row s t using photo_step4_tied[OF that] .
    show "groups_tied (dbphotos (new_db v tmps), dbphotos_burst (new_db v tmps))"
      by (rule groups_tied_new_db)
    show "distinct (map (\<lambda>row. row 0) (photos4 raw4))" using a by (rule conjunct2)
    show "keys_of (fst (dbphotos (new_db v tmps), dbphotos_burst (new_db v tmps)))
            \<inter> (\<lambda>row. row 0) ` set (photos4 raw4) = {}"
      by (simp add: keys_of_new_db)
  qed
  note r = legacy_after_main[OF b m burst_uuid_kept4[where ps = "fst main"] same_burst_uuid]
  show ?thesis
    by (rule exI[of _ main], intro conjI) (rule t, rule conjunct1[OF r], rule conjunct2[OF r])
next
  assume a: "build5 raw5 (new_db v tmps) = Inr db \<and> distinct (map (\<lambda>row. row 0) (photos5 raw5))"
  then have b: "build5 raw5 (new_db v tmps) = Inr db" by (rule conjunct1)
  from modern_later_uuids[OF b] obtain main where
    m: "fold_err photo_step5 (photos5 raw5)
          (dbphotos (new_db v tmps), dbphotos_burst (new_db v tmps)) = Inr main"
    by (elim exE conjE)
  have t: "groups_tied main"
  proof (rule tied_main[where f = photo_step5 and b = "\<lambda>row. row 19", OF m])
    show "\<exists>i. map_of i ''burstUUID'' = Some (row 19)
            \<and> t = (AList.update (row 0) i (fst s), burst_add (row 19) (row 0) (snd s))"
      if "photo_step5 row s = Inr t" for row s t using photo_step5_tied[OF that] .
    show "groups_tied (dbphotos (new_db v tmps), dbphotos_burst (new_db v tmps))"
      by (rule groups_tied_new_db)
    show "distinct (map (\<lambda>row. row 0) (photos5 raw5))" using a by (rule conjunct2)
    show "keys_of (fst (dbphotos (new_db v tmps), dbphotos_burst (new_db v tmps)))
            \<inter> (\<lambda>row. row 0) ` set (photos5 raw5) = {}"
      by (simp add: keys_of_new_db)
  qed
  note r = modern_after_main[OF b m burst_uuid_kept5[where ps = "fst main"] same_burst_uuid]
  show ?thesis
    by (rule exI[of _ main], intro conjI) (rule t, rule conjunct1[OF r], rule conjunct2[OF r])
qed

text \<open>
  C2. The claim: every non-empty burst group has exactly one member whose burst-key flag is
  true. The ingesters do not make it so: they have no step that chooses a representative,
  and a group has as many of them as it has members whose pick type is neither 2 nor 4.
  What holds, when the wide join returns every uuid once: every member of every burst group
  of an ingested index is an asset of the index, the burst uuid of its record is that
  group, its burst flag is true, and its burst-key flag is decided by its own pick type
  alone: false for the pick types 2 and 4, true for every other value, NULL too.
\<close>

theorem burst_key_from_pick_type:
  assumes "(process_database4 dbg raw4 (new_db v tmps) w = (Inr db, w')
              \<and> distinct (map (\<lambda>row. row 0) (photos4 raw4)))
           \<or> (process_database5 dbg raw5 (new_db v tmps) w = (Inr db, w')
              \<and> distinct (map (\<lambda>row. row 0) (photos5 raw5)))"
      and "map_of (dbphotos_burst db) burst = Some members" and "u \<in> members"
  shows "u \<in> keys_of (dbphotos db)
         \<and> burst \<noteq> PNone
         \<and> photo_field db u ''burstUUID'' = Some burst
         \<and> photo_field db u ''burst'' = Some (PBool True)
         \<and> (\<exists>pick. photo_field db u ''burstPickType'' = Some pick
              \<and> photo_field db u ''burst_key'' =
                  Some (PBool (pick \<noteq> PInt 2 \<and> pick \<noteq> PInt 4)))"
proof -
  have "\<exists>db1 fs.
      ((build4 raw4 (new_db v tmps) = Inr db1 \<and> distinct (map (\<lambda>row. row 0) (photos4 raw4)))
       \<or> (build5 raw5 (new_db v tmps) = Inr db1 \<and> distinct (map (\<lambda>row. row 0) (photos5 raw5))))
      \<and> db = db1 \<lparr> tmp_files := fs \<rparr>"
    using assms(1)
  proof (elim disjE conjE)
    assume p: "process_database4 dbg raw4 (new_db v tmps) w = (Inr db, w')"
       and d: "distinct (map (\<lambda>row. row 0) (photos4 raw4))"
    from process_database4_Inr[OF p] obtain db1 fs where
      "build4 raw4 (new_db v tmps) = Inr db1" "db = db1 \<lparr> tmp_files := fs \<rparr>" by blast
    with d show ?thesis by blast
  next
    assume p: "process_database5 dbg raw5 (new_db v tmps) w = (Inr db, w')"
       and d: "distinct (map (\<lambda>row. row 0) (photos5 raw5))"
    from process_database5_Inr[OF p] obtain db1 fs where
      "build5 raw5 (new_db v tmps) = Inr db1" "db = db1 \<lparr> tmp_files := fs \<rparr>" by blast
    with d show ?thesis by blast
  qed
  then obtain db1 fs where
    b: "(build4 raw4 (new_db v tmps) = Inr db1 \<and> distinct (map (\<lambda>row. row 0) (photos4 raw4)))
      \<or> (build5 raw5 (new_db v tmps) = Inr db1 \<and> distinct (map (\<lambda>row. row 0) (photos5 raw5)))"
    and db: "db = db1 \<lparr> tmp_files := fs \<rparr>"
    by blast
  from b have b': "build4 raw4 (new_db v tmps) = Inr db1 \<or> build5 raw5 (new_db v tmps) = Inr db1"
    by blast
  from ingested_bursts[OF b'] db
  have g: "groups_ok (dbphotos db, dbphotos_burst db)"
   and r: "every_record (\<lambda>_. burst_fields_ok) (dbphotos db)" by simp_all
  from ingested_tied[OF b] db obtain main where
    t: "groups_tied main" "dbphotos_burst db = snd main"
       "every_record (\<lambda>u i. \<forall>j. map_of (fst main) u = Some j \<longrightarrow>
            map_of i ''burstUUID'' = map_of j ''burstUUID'') (dbphotos db)"
    by auto
  from g assms(2,3) have k: "u \<in> keys_of (dbphotos db)"
    unfolding groups_ok_def by auto
  then obtain i where i: "map_of (dbphotos db) u = Some i"
    by (auto simp: keys_of_map_of)
  from assms(2) t(2) have grp: "map_of (snd main) burst = Some members" by simp
  from tied_members[OF t(1) t(3) r grp assms(3) i] k
  show ?thesis by (simp add: photo_field_Some[OF i])
qed

section \<open>Availability\<close>

lemma availability_last:
  assumes "map_of ps u = Some i0"
  shows "\<exists>i. map_of (fold availability_step5 rows ps) u = Some i
           \<and> (filter (\<lambda>r. r 0 = u) rows \<noteq> [] \<longrightarrow>
                availability_is (last (filter (\<lambda>r. r 0 = u) rows)) i)"
proof (induction rows rule: rev_induct)
  case Nil
  then show ?case using assms by simp
next
  case (snoc x xs)
  then obtain i where i: "map_of (fold availability_step5 xs ps) u = Some i"
    and v: "filter (\<lambda>r. r 0 = u) xs \<noteq> [] \<longrightarrow>
              availability_is (last (filter (\<lambda>r. r 0 = u) xs)) i"
    by blast
  have step: "fold availability_step5 (xs @ [x]) ps
      = set_keys (x 0) (\<lambda>_. [(''localAvailability'', x 1), (''remoteAvailability'', x 2),
                             (''isMissing'', if x 1 \<noteq> PInt 1 then PInt 1 else PInt 0)])
          (fold availability_step5 xs ps)"
    by (simp add: availability_step5_def)
  show ?case
  proof (cases "x 0 = u")
    case True
    have "map_of (fold availability_step5 (xs @ [x]) ps) u
        = Some (assign [(''localAvailability'', x 1), (''remoteAvailability'', x 2),
                        (''isMissing'', if x 1 \<noteq> PInt 1 then PInt 1 else PInt 0)] i)"
      unfolding step using i True by (simp add: set_keys_map_of)
    moreover
    have "availability_is x
            (assign [(''localAvailability'', x 1), (''remoteAvailability'', x 2),
                     (''isMissing'', if x 1 \<noteq> PInt 1 then PInt 1 else PInt 0)] i)"
      by (simp add: availability_is_def assign_def update_conv')
    moreover have "last (filter (\<lambda>r. r 0 = u) (xs @ [x])) = x"
      using True by simp
    ultimately show ?thesis by simp
  next
    case False
    have "map_of (fold availability_step5 (xs @ [x]) ps) u = Some i"
      unfolding step using i False by (simp add: set_keys_map_of)
    moreover have "filter (\<lambda>r. r 0 = u) (xs @ [x]) = filter (\<lambda>r. r 0 = u) xs"
      using False by simp
    ultimately show ?thesis using v by simp
  qed
qed

lemma availability_keys_not_last:
  "''localAvailability'' \<notin> last_keys5" "''remoteAvailability'' \<notin> last_keys5"
  "''isMissing'' \<notin> last_keys5"
  by (simp_all add: last_keys5_def)

text \<open>
  C3. In the modern ingester the second availability join (by fingerprint) has the last
  word: for every asset of the index that it touches, whatever the first join did, the
  stored local and remote availability are those of its last row for the asset, and the
  asset is missing exactly if that local availability is not 1.
\<close>

theorem second_availability_join_wins:
  assumes "process_database5 dbg raw db w = (Inr db', w')"
      and "u \<in> keys_of (dbphotos db')"
      and "filter (\<lambda>r. r 0 = u) (availability_fingerprint5 raw) \<noteq> []"
  shows "photo_field db' u ''localAvailability''
           = Some (last (filter (\<lambda>r. r 0 = u) (availability_fingerprint5 raw)) 1)
       \<and> photo_field db' u ''remoteAvailability''
           = Some (last (filter (\<lambda>r. r 0 = u) (availability_fingerprint5 raw)) 2)
       \<and> photo_field db' u ''isMissing''
           = Some (if last (filter (\<lambda>r. r 0 = u) (availability_fingerprint5 raw)) 1 \<noteq> PInt 1
                   then PInt 1 else PInt 0)"
proof -
  define r where "r = last (filter (\<lambda>r. r 0 = u) (availability_fingerprint5 raw))"
  define P where "P = (\<lambda>u' i. u' = u \<longrightarrow> availability_is r i)"
  from process_database5_Inr[OF assms(1)] obtain db1 fs where
    b: "build5 raw db = Inr db1" and db': "db' = db1 \<lparr> tmp_files := fs \<rparr>" by blast
  from build5_Inr[OF b] obtain main p1 p2 p3 p4 p5 where d:
    "p4 = fold availability_step5 (availability_fingerprint5 raw) p3"
    "p5 = fold cloud_step5 (cloud5 raw) p4"
    "dbphotos db1
       = fold (\<lambda>u. set_keys u (\<lambda>_. attach5 (cross_references5 raw db) u)) (map fst p5) p5"
    by blast
  have keys: "map fst (dbphotos db1) = map fst p3"
  proof -
    note t = kept_by_True every_record_True
    have "map fst p4 = map fst p3"
      unfolding d(1) using fold_writes[OF availability_step5_writes t] by simp
    moreover have "map fst p5 = map fst p4"
      unfolding d(2) using fold_writes[OF cloud_step5_last t] by simp
    moreover have "map fst (dbphotos db1) = map fst p5"
      unfolding d(3) using fold_writes[OF attach5_last t] by simp
    ultimately show ?thesis by simp
  qed
  from assms(2) db' keys have "u \<in> keys_of p3" by (simp add: keys_of_map_fst)
  then obtain i0 where "map_of p3 u = Some i0" by (auto simp: keys_of_map_of)
  from availability_last[OF this, of "availability_fingerprint5 raw"] assms(3)
  have "every_record P p4"
    unfolding every_record_def P_def r_def d(1) by auto
  moreover have "kept_by last_keys5 P"
    unfolding kept_by_def P_def availability_is_def
    by (simp add: assign_outside[where K = last_keys5] availability_keys_not_last)
  ultimately have "every_record P (dbphotos db1)"
    unfolding d(3) d(2) by (rule modern_last_kept)
  moreover from assms(2) db' obtain i where "map_of (dbphotos db1) u = Some i"
    by (auto simp: keys_of_map_of)
  ultimately have "availability_is r i" and "map_of (dbphotos db') u = Some i"
    using db' unfolding every_record_def P_def by simp_all
  then show ?thesis
    unfolding availability_is_def r_def by (simp add: photo_field_def)
qed

section \<open>The fields of the records\<close>




























section \<open>The claims about the ingesters, at the stores above\<close>

lemma mixed_processed:
  "process_database5 False mixed5 (new_db ''6000'' []) one_copy = (Inr mixed_db, one_copy)"
  unfolding mixed_db_def by code_simp

lemma mixed_burst:
  "map_of (dbphotos_burst mixed_db) (PStr ''G'') = Some {PStr ''B1'', PStr ''B2'', PStr ''B3''}"
  unfolding mixed_db_def by code_simp

theorem burst_two_representatives:
  "process_database5 False mixed5 (new_db ''6000'' []) one_copy = (Inr mixed_db, one_copy)
   \<and> map_of (dbphotos_burst mixed_db) (PStr ''G'') = Some {PStr ''B1'', PStr ''B2'', PStr ''B3''}
   \<and> photo_field mixed_db (PStr ''B1'') ''burst_key'' = Some (PBool True)
   \<and> photo_field mixed_db (PStr ''B2'') ''burst_key'' = Some (PBool True)
   \<and> PStr ''B1'' \<noteq> PStr ''B2''"
proof -
  have "photo_field mixed_db (PStr ''B1'') ''burst_key'' = Some (PBool True)"
    unfolding mixed_db_def by code_simp
  moreover have "photo_field mixed_db (PStr ''B2'') ''burst_key'' = Some (PBool True)"
    unfolding mixed_db_def by code_simp
  ultimately show ?thesis using mixed_processed mixed_burst by simp
qed

lemma mixed_distinct: "distinct (map (\<lambda>row. row 0) (photos5 mixed5))"
  by (simp add: mixed5_def asset5_def cells_def)

theorem burst_key_from_pick_type_witness:
  "process_database5 False mixed5 (new_db ''6000'' []) one_copy = (Inr mixed_db, one_copy)
   \<and> distinct (map (\<lambda>row. row 0) (photos5 mixed5))
   \<and> map_of (dbphotos_burst mixed_db) (PStr ''G'') = Some {PStr ''B1'', PStr ''B2'', PStr ''B3''}
   \<and> PStr ''B3'' \<in> {PStr ''B1'', PStr ''B2'', PStr ''B3''}
   \<and> PStr ''B3'' \<in> keys_of (dbphotos mixed_db)
   \<and> photo_field mixed_db (PStr ''B3'') ''burstUUID'' = Some (PStr ''G'')
   \<and> photo_field mixed_db (PStr ''B3'') ''burstPickType'' = Some (PInt 2)
   \<and> photo_field mixed_db (PStr ''B3'') ''burst'' = Some (PBool True)
   \<and> photo_field mixed_db (PStr ''B3'') ''burst_key'' = Some (PBool False)"
proof -
  have m: "PStr ''B3'' \<in> {PStr ''B1'', PStr ''B2'', PStr ''B3''}" by simp
  have p: "photo_field mixed_db (PStr ''B3'') ''burstPickType'' = Some (PInt 2)"
    unfolding mixed_db_def by code_simp
  from burst_key_from_pick_type[where ?raw4.0 = stale4, OF disjI2,
         OF conjI[OF mixed_processed mixed_distinct] mixed_burst m]
    p mixed_processed mixed_burst mixed_distinct
  show ?thesis by auto
qed

lemma avail_processed:
  "process_database5 False avail5 (new_db ''6000'' []) one_copy = (Inr avail_db, one_copy)"
  unfolding avail_db_def by code_simp

theorem second_availability_join_wins_witness:
  "process_database5 False avail5 (new_db ''6000'' []) one_copy = (Inr avail_db, one_copy)
   \<and> PStr ''X'' \<in> keys_of (dbphotos avail_db)
   \<and> filter (\<lambda>r. r 0 = PStr ''X'') (availability_subtype5 avail5) \<noteq> []
   \<and> filter (\<lambda>r. r 0 = PStr ''X'') (availability_fingerprint5 avail5) \<noteq> []
   \<and> photo_field (ingested (build5 (avail5 \<lparr> availability_fingerprint5 := [] \<rparr>)
                     (new_db ''6000'' []))) (PStr ''X'') ''isMissing'' = Some (PInt 0)
   \<and> photo_field avail_db (PStr ''X'') ''localAvailability'' = Some (PInt 0)
   \<and> photo_field avail_db (PStr ''X'') ''remoteAvailability'' = Some (PInt 1)
   \<and> photo_field avail_db (PStr ''X'') ''isMissing'' = Some (PInt 1)"
proof -
  have k: "PStr ''X'' \<in> keys_of (dbphotos avail_db)"
    unfolding avail_db_def by code_simp
  have f1: "filter (\<lambda>r. r 0 = PStr ''X'') (availability_subtype5 avail5) \<noteq> []"
    by (simp add: avail5_def cells_def)
  have f2: "filter (\<lambda>r. r 0 = PStr ''X'') (availability_fingerprint5 avail5) \<noteq> []"
    by (simp add: avail5_def cells_def)
  have first: "photo_field (ingested (build5 (avail5 \<lparr> availability_fingerprint5 := [] \<rparr>)
                 (new_db ''6000'' []))) (PStr ''X'') ''isMissing'' = Some (PInt 0)"
    by code_simp
  from second_availability_join_wins[OF avail_processed k f2]
  have "photo_field avail_db (PStr ''X'') ''localAvailability'' = Some (PInt 0)
      \<and> photo_field avail_db (PStr ''X'') ''remoteAvailability'' = Some (PInt 1)
      \<and> photo_field avail_db (PStr ''X'') ''isMissing'' = Some (PInt 1)"
    by (simp add: avail5_def cells_def)
  with avail_processed k f1 f2 first show ?thesis by simp
qed





section \<open>The temporary files\<close>











section \<open>The shared-album views and the version marker\<close>

text \<open>
  On strings of decimal digits of the same length, the order of the strings is the order of
  the numbers.
\<close>

lemma horner_shift:
  fixes f :: "'a \<Rightarrow> nat"
  shows "foldl (\<lambda>n c. 10 * n + f c) a s
           = a * 10 ^ length s + foldl (\<lambda>n c. 10 * n + f c) 0 s"
proof -
  define g where "g = (\<lambda>n c. 10 * n + f c)"
  have "foldl g a s = a * 10 ^ length s + foldl g 0 s" for a
  proof (induction s arbitrary: a)
    case Nil
    show ?case by simp
  next
    case (Cons c s)
    have "foldl g a (c # s) = foldl g (10 * a + f c) s" by (simp add: g_def)
    also have "\<dots> = (10 * a + f c) * 10 ^ length s + foldl g 0 s" by (rule Cons.IH)
    also have "\<dots> = a * 10 ^ length (c # s) + (f c * 10 ^ length s + foldl g 0 s)"
      by (simp add: algebra_simps)
    also have "\<dots> = a * 10 ^ length (c # s) + foldl g (f c) s"
      unfolding Cons.IH[of "f c"] ..
    also have "\<dots> = a * 10 ^ length (c # s) + foldl g 0 (c # s)" by (simp add: g_def)
    finally show ?case .
  qed
  then show ?thesis unfolding g_def .
qed

lemma version_number_digits:
  "version_number s = foldl (\<lambda>n c. 10 * n + digit_value c) 0 s"
  unfolding version_number_def digit_value_def by (rule refl)

lemma version_number_Cons:
  "version_number (c # s) = digit_value c * 10 ^ length s + version_number s"
proof -
  have "version_number (c # s) = foldl (\<lambda>n c. 10 * n + digit_value c) (digit_value c) s"
    unfolding version_number_digits by simp
  then show ?thesis
    unfolding version_number_digits using horner_shift[of digit_value "digit_value c" s]
    by simp
qed

lemma is_digit_value:
  assumes "is_digit c"
  shows "digit_value c \<le> 9" and "(of_char CHR ''0'' :: nat) \<le> of_char c"
  using assms unfolding is_digit_def less_eq_char_def digit_value_def by auto

lemma version_number_bound:
  "list_all is_digit s \<Longrightarrow> version_number s < 10 ^ length s"
proof (induction s)
  case Nil
  then show ?case by (simp add: version_number_def)
next
  case (Cons c s)
  from Cons.prems have c: "digit_value c \<le> 9"
    and s: "version_number s < 10 ^ length s"
    using is_digit_value(1) Cons.IH by simp_all
  have le: "digit_value c * 10 ^ length s \<le> 9 * 10 ^ length s"
    using c by (rule mult_le_mono1)
  have "digit_value c * 10 ^ length s + version_number s < 9 * 10 ^ length s + 10 ^ length s"
    using le s by (rule add_le_less_mono)
  also have "\<dots> = 10 ^ length (c # s)" by simp
  finally show ?case unfolding version_number_Cons .
qed

lemma digit_less:
  assumes "is_digit c" and "is_digit d"
  shows "c < d \<longleftrightarrow> digit_value c < digit_value d"
    and "c = d \<longleftrightarrow> digit_value c = digit_value d"
proof -
  note v = is_digit_value(2)[OF assms(1)] is_digit_value(2)[OF assms(2)]
  show "c < d \<longleftrightarrow> digit_value c < digit_value d"
    using v unfolding less_char_def digit_value_def by auto
  have e: "c = d \<longleftrightarrow> (of_char c :: nat) = of_char d"
    by (rule of_char_eq_iff[symmetric])
  show "c = d \<longleftrightarrow> digit_value c = digit_value d"
    using v unfolding e digit_value_def by arith
qed

lemma leading_digit_less:
  fixes a b x y p :: nat
  assumes "x < p" and "a < b"
  shows "a * p + x < b * p + y"
proof -
  have "a * p + x < a * p + p" using assms(1) by simp
  also have "\<dots> = Suc a * p" by simp
  also have "\<dots> \<le> b * p" using assms(2) by (intro mult_le_mono1) simp
  also have "\<dots> \<le> b * p + y" by simp
  finally show ?thesis .
qed

lemma leading_digit_decides:
  fixes a b x y p :: nat
  assumes "x < p" and "y < p"
  shows "a * p + x < b * p + y \<longleftrightarrow> a < b \<or> a = b \<and> x < y"
proof (cases a b rule: linorder_cases)
  case less
  from leading_digit_less[OF assms(1) less] less show ?thesis by simp
next
  case equal
  then show ?thesis by simp
next
  case greater
  from leading_digit_less[OF assms(2) greater, of x]
  have "\<not> a * p + x < b * p + y" by (rule less_not_sym)
  with greater show ?thesis by simp
qed

lemma string_order_is_number_order:
  assumes "length s = length t" and "list_all is_digit s" and "list_all is_digit t"
  shows "s < t \<longleftrightarrow> version_number s < version_number t"
  using assms
proof (induction s t rule: list_induct2)
  case Nil
  then show ?case by (simp add: version_number_def)
next
  case (Cons c s d t)
  from Cons.prems have cd: "is_digit c" "is_digit d"
    and st: "list_all is_digit s" "list_all is_digit t" by simp_all
  note b = version_number_bound[OF st(1)] version_number_bound[OF st(2)]
  have "version_number (c # s) < version_number (d # t)
        \<longleftrightarrow> digit_value c < digit_value d
            \<or> digit_value c = digit_value d \<and> version_number s < version_number t"
    unfolding version_number_Cons using b Cons.hyps
    by (simp add: leading_digit_decides)
  also have "\<dots> \<longleftrightarrow> c < d \<or> c = d \<and> s < t"
    unfolding digit_less(1)[OF cd] digit_less(2)[OF cd] Cons.IH[OF st] ..
  finally show ?case by simp
qed

text \<open>The two loops of the views, when the details of every album at hand are there.\<close>

lemma filter_err_total:
  "(\<And>x. x \<in> set xs \<Longrightarrow> p x = Inr (q x)) \<Longrightarrow> filter_err p xs = Inr (filter q xs)"
  by (induction xs) simp_all

lemma album_field_item:
  assumes "album_field db k name = Some v"
  shows "\<exists>d. item (dbalbum_details db) k = Inr d \<and> item d name = Inr v"
  using assms unfolding album_field_def item_def by (auto split: option.splits)

lemma album_title_Inr:
  assumes "album_field db k ''title'' = Some t"
  shows "album_title db k = Inr t"
  using album_field_item[OF assms] unfolding album_title_def by (auto simp: bnd_def)

lemma details_completeD:
  assumes "details_complete db" and "k \<in> set (map fst (dbalbums_album db))"
  shows "\<exists>owner t. album_field db k ''cloudownerhashedpersonid'' = Some owner
           \<and> album_field db k ''title'' = Some t"
  using assms unfolding details_complete_def list_all_iff by blast

lemma shared_album_keys_complete:
  assumes "details_complete db"
  shows "shared_album_keys db = Inr (filter (is_shared db) (map fst (dbalbums_album db)))"
  unfolding shared_album_keys_def
proof (rule filter_err_total)
  fix k assume "k \<in> set (map fst (dbalbums_album db))"
  from details_completeD[OF assms this] obtain owner where
    o: "album_field db k ''cloudownerhashedpersonid'' = Some owner" by blast
  from album_field_item[OF o] obtain d where
    d: "item (dbalbum_details db) k = Inr d" "item d ''cloudownerhashedpersonid'' = Inr owner"
    by blast
  have "is_shared db k = (owner \<noteq> PNone)" unfolding is_shared_def o by simp
  with d show "bnd (item (dbalbum_details db) k)
                 (\<lambda>d. bnd (item d ''cloudownerhashedpersonid'') (\<lambda>owner. Inr (owner \<noteq> PNone)))
               = Inr (is_shared db k)"
    by (simp add: bnd_def)
qed

lemma titles_loop:
  assumes "\<And>k. k \<in> set ks \<Longrightarrow> \<exists>t. album_field db k ''title'' = Some t"
  shows "fold_err (\<lambda>album albums. bnd (album_title db album)
                     (\<lambda>title. Inr (insert title albums))) ks acc
         = Inr (acc \<union> set (List.map_filter (\<lambda>k. album_field db k ''title'') ks))"
  using assms
proof (induction ks arbitrary: acc)
  case Nil
  then show ?case by (simp add: map_filter_simps)
next
  case (Cons k ks)
  from Cons.prems[of k] obtain t where t: "album_field db k ''title'' = Some t" by auto
  have step: "bnd (album_title db k) (\<lambda>title. Inr (insert title acc)) = Inr (insert t acc)"
    unfolding album_title_Inr[OF t] by (simp add: bnd_def)
  have rest: "fold_err (\<lambda>album albums. bnd (album_title db album)
                     (\<lambda>title. Inr (insert title albums))) ks (insert t acc)
         = Inr (insert t acc \<union> set (List.map_filter (\<lambda>k. album_field db k ''title'') ks))"
    by (rule Cons.IH) (rule Cons.prems, simp)
  show ?case
    unfolding fold_err.simps step sum.case rest by (simp add: map_filter_simps t)
qed

lemma keys_of_update: "keys_of (AList.update k v d) = insert k (keys_of d)"
proof -
  have "x \<in> keys_of (AList.update k v d) \<longleftrightarrow> x = k \<or> x \<in> keys_of d" for x
    by (simp add: keys_of_map_of update_conv')
  then show ?thesis by (intro set_eqI) simp
qed

lemma counts_loop:
  assumes "\<And>k. k \<in> set ks \<Longrightarrow> \<exists>t. album_field db k ''title'' = Some t"
      and "\<And>k. k \<in> set ks \<Longrightarrow> \<exists>us. item (dbalbums_album db) k = Inr us"
  shows "\<exists>d. fold_err (\<lambda>k albums.
                 bnd (album_title db k) (\<lambda>title.
                 bnd (item (dbalbums_album db) k) (\<lambda>us.
                   Inr (case map_of albums title of
                          Some n \<Rightarrow> AList.update title (n + length us) albums
                        | None \<Rightarrow> AList.update title (length us) albums)))) ks acc = Inr d
           \<and> keys_of d = keys_of acc \<union> set (List.map_filter (\<lambda>k. album_field db k ''title'') ks)"
  using assms
proof (induction ks arbitrary: acc)
  case Nil
  then show ?case by (simp add: map_filter_simps)
next
  case (Cons k ks)
  from Cons.prems(1)[of k] obtain t where t: "album_field db k ''title'' = Some t" by auto
  from Cons.prems(2)[of k] obtain us where us: "item (dbalbums_album db) k = Inr us" by auto
  define acc' where "acc' = (case map_of acc t of
                          Some n \<Rightarrow> AList.update t (n + length us) acc
                        | None \<Rightarrow> AList.update t (length us) acc)"
  have step: "bnd (album_title db k) (\<lambda>title.
                 bnd (item (dbalbums_album db) k) (\<lambda>us.
                   Inr (case map_of acc title of
                          Some n \<Rightarrow> AList.update title (n + length us) acc
                        | None \<Rightarrow> AList.update title (length us) acc))) = Inr acc'"
    unfolding album_title_Inr[OF t] us acc'_def by (simp add: bnd_def)
  have k': "keys_of acc' = insert t (keys_of acc)"
    unfolding acc'_def by (cases "map_of acc t") (simp_all add: keys_of_update)
  have "\<exists>d. fold_err (\<lambda>k albums.
                 bnd (album_title db k) (\<lambda>title.
                 bnd (item (dbalbums_album db) k) (\<lambda>us.
                   Inr (case map_of albums title of
                          Some n \<Rightarrow> AList.update title (n + length us) albums
                        | None \<Rightarrow> AList.update title (length us) albums)))) ks acc' = Inr d
           \<and> keys_of d = keys_of acc' \<union> set (List.map_filter (\<lambda>k. album_field db k ''title'') ks)"
    by (rule Cons.IH) (rule Cons.prems(1), simp, rule Cons.prems(2), simp)
  then obtain d where d: "fold_err (\<lambda>k albums.
                 bnd (album_title db k) (\<lambda>title.
                 bnd (item (dbalbums_album db) k) (\<lambda>us.
                   Inr (case map_of albums title of
                          Some n \<Rightarrow> AList.update title (n + length us) albums
                        | None \<Rightarrow> AList.update title (length us) albums)))) ks acc' = Inr d"
    "keys_of d = keys_of acc' \<union> set (List.map_filter (\<lambda>k. album_field db k ''title'') ks)"
    by blast
  show ?case
    unfolding fold_err.simps step sum.case
    by (rule exI[of _ d]) (simp add: d k' map_filter_simps t)
qed

lemma keys_of_sorted_by_count: "keys_of (sorted_by_count d) = keys_of d"
  by (simp add: keys_of_def sorted_by_count_def)

lemma album_keys_items:
  assumes "k \<in> set (map fst (dbalbums_album db))"
  shows "\<exists>us. item (dbalbums_album db) k = Inr us"
proof -
  from assms have "map_of (dbalbums_album db) k \<noteq> None"
    by (simp add: map_of_eq_None_iff)
  then show ?thesis unfolding item_def by (auto split: option.splits)
qed

lemma albums_shared_modern:
  assumes "\<not> db_version db < v5" and "details_complete db"
  shows "albums_shared v5 db = Inr (shared_titles db, [])"
proof -
  have "fold_err (\<lambda>album albums. bnd (album_title db album)
                     (\<lambda>title. Inr (insert title albums)))
          (filter (is_shared db) (map fst (dbalbums_album db))) {}
        = Inr ({} \<union> shared_titles db)"
    unfolding shared_titles_def
  proof (rule titles_loop)
    fix k assume "k \<in> set (filter (is_shared db) (map fst (dbalbums_album db)))"
    then have "k \<in> set (map fst (dbalbums_album db))" by simp
    from details_completeD[OF assms(2) this]
    show "\<exists>t. album_field db k ''title'' = Some t" by blast
  qed
  then show ?thesis
    unfolding albums_shared_def shared_album_keys_complete[OF assms(2)]
    using assms(1) by (simp add: bnd_def)
qed

lemma albums_shared_as_dict_modern:
  assumes "\<not> db_version db < v5" and "details_complete db"
  shows "\<exists>d. albums_shared_as_dict v5 db = Inr (d, []) \<and> keys_of d = shared_titles db"
proof -
  have "\<exists>d. fold_err (\<lambda>k albums.
                 bnd (album_title db k) (\<lambda>title.
                 bnd (item (dbalbums_album db) k) (\<lambda>us.
                   Inr (case map_of albums title of
                          Some n \<Rightarrow> AList.update title (n + length us) albums
                        | None \<Rightarrow> AList.update title (length us) albums))))
              (filter (is_shared db) (map fst (dbalbums_album db))) [] = Inr d
           \<and> keys_of d = keys_of ([] :: (pyval, nat) dict) \<union> shared_titles db"
    unfolding shared_titles_def
  proof (rule counts_loop)
    fix k assume "k \<in> set (filter (is_shared db) (map fst (dbalbums_album db)))"
    then have k: "k \<in> set (map fst (dbalbums_album db))" by simp
    from details_completeD[OF assms(2) k]
    show "\<exists>t. album_field db k ''title'' = Some t" by blast
    from album_keys_items[OF k]
    show "\<exists>us. item (dbalbums_album db) k = Inr us" .
  qed
  then obtain d where d: "fold_err (\<lambda>k albums.
                 bnd (album_title db k) (\<lambda>title.
                 bnd (item (dbalbums_album db) k) (\<lambda>us.
                   Inr (case map_of albums title of
                          Some n \<Rightarrow> AList.update title (n + length us) albums
                        | None \<Rightarrow> AList.update title (length us) albums))))
              (filter (is_shared db) (map fst (dbalbums_album db))) [] = Inr d"
     "keys_of d = keys_of ([] :: (pyval, nat) dict) \<union> shared_titles db" by blast
  have "albums_shared_as_dict v5 db = Inr (sorted_by_count d, [])"
    unfolding albums_shared_as_dict_def shared_album_keys_complete[OF assms(2)]
    using assms(1) d(1) by (simp add: bnd_def)
  moreover have "keys_of (sorted_by_count d) = shared_titles db"
    unfolding keys_of_sorted_by_count d(2) by (simp add: keys_of_def)
  ultimately show ?thesis by blast
qed

text \<open>
  C9. The claim: on an index ingested from a Legacy-classified store both shared-album views
  return an empty result and log a warning, and on a Modern-classified index they return
  exactly the albums whose record has a non-null cloud owner. The views walk the keys of
  \<^verbatim>\<open>_dbalbums_album\<close>, which holds the albums that have an asset in the index: a shared album
  without any such asset is not returned. What holds, for a version marker and a threshold
  that are strings of decimal digits of the same length: on a Legacy-classified index both
  views return the empty result and log the warning once; on a Modern-classified index in
  which every album that has an asset has its details, \<^verbatim>\<open>albums_shared\<close> returns exactly the
  titles of the albums that have an asset in the index and a non-null cloud owner, and
  these titles are the keys of \<^verbatim>\<open>albums_shared_as_dict\<close>.
\<close>

theorem shared_views_by_classification:
  assumes "list_all is_digit v5" and "list_all is_digit (db_version db)"
      and "length (db_version db) = length v5"
  shows "(legacy_classified v5 (db_version db) \<longrightarrow>
            albums_shared v5 db = Inr ({}, [shared_warning v5])
            \<and> albums_shared_as_dict v5 db = Inr ([], [shared_warning v5]))
       \<and> (\<not> legacy_classified v5 (db_version db) \<and> details_complete db \<longrightarrow>
            albums_shared v5 db = Inr (shared_titles db, [])
            \<and> (\<exists>d. albums_shared_as_dict v5 db = Inr (d, []) \<and> keys_of d = shared_titles db))"
proof -
  have c: "db_version db < v5 \<longleftrightarrow> legacy_classified v5 (db_version db)"
    unfolding legacy_classified_def
    by (rule string_order_is_number_order[OF assms(3,2,1)])
  have "albums_shared v5 db = Inr ({}, [shared_warning v5])
        \<and> albums_shared_as_dict v5 db = Inr ([], [shared_warning v5])"
    if "legacy_classified v5 (db_version db)"
    using that c by (simp add: albums_shared_def albums_shared_as_dict_def)
  moreover have "albums_shared v5 db = Inr (shared_titles db, [])
            \<and> (\<exists>d. albums_shared_as_dict v5 db = Inr (d, []) \<and> keys_of d = shared_titles db)"
    if "\<not> legacy_classified v5 (db_version db) \<and> details_complete db"
  proof -
    from that c have v: "\<not> db_version db < v5" and dc: "details_complete db" by simp_all
    from albums_shared_modern[OF v dc] albums_shared_as_dict_modern[OF v dc]
    show ?thesis by (rule conjI)
  qed
  ultimately show ?thesis by blast
qed

lemma shared_processed:
  "process_database5 False shared5 (new_db ''6000'' []) one_copy = (Inr shared_db, one_copy)"
  unfolding shared_db_def by code_simp

theorem shared_album_without_asset_not_listed:
  "process_database5 False shared5 (new_db ''6000'' []) one_copy = (Inr shared_db, one_copy)
   \<and> \<not> legacy_classified ''6000'' (db_version shared_db)
   \<and> album_field shared_db (PStr ''S2'') ''title'' = Some (PStr ''Empty'')
   \<and> album_field shared_db (PStr ''S2'') ''cloudownerhashedpersonid'' = Some (PStr ''hash2'')
   \<and> albums_shared ''6000'' shared_db = Inr ({PStr ''Family''}, [])
   \<and> albums_shared_as_dict ''6000'' shared_db = Inr ([(PStr ''Family'', 1)], [])"
proof -
  have "\<not> legacy_classified ''6000'' (db_version shared_db)"
    unfolding shared_db_def by code_simp
  moreover have "album_field shared_db (PStr ''S2'') ''title'' = Some (PStr ''Empty'')"
    unfolding shared_db_def by code_simp
  moreover have "album_field shared_db (PStr ''S2'') ''cloudownerhashedpersonid''
                   = Some (PStr ''hash2'')"
    unfolding shared_db_def by code_simp
  moreover have "albums_shared ''6000'' shared_db = Inr ({PStr ''Family''}, [])"
    unfolding shared_db_def by code_simp
  moreover have "albums_shared_as_dict ''6000'' shared_db = Inr ([(PStr ''Family'', 1)], [])"
    unfolding shared_db_def by code_simp
  ultimately show ?thesis using shared_processed by simp
qed

theorem shared_views_by_classification_witness:
  "list_all is_digit ''6000'' \<and> list_all is_digit (db_version plain_db4)
   \<and> length (db_version plain_db4) = length ''6000''
   \<and> legacy_classified ''6000'' (db_version plain_db4)
   \<and> albums_shared ''6000'' plain_db4 = Inr ({}, [shared_warning ''6000''])
   \<and> albums_shared_as_dict ''6000'' plain_db4 = Inr ([], [shared_warning ''6000''])
   \<and> list_all is_digit (db_version shared_db)
   \<and> length (db_version shared_db) = length ''6000''
   \<and> \<not> legacy_classified ''6000'' (db_version shared_db)
   \<and> details_complete shared_db
   \<and> shared_titles shared_db = {PStr ''Family''}
   \<and> albums_shared ''6000'' shared_db = Inr (shared_titles shared_db, [])
   \<and> (\<exists>d. albums_shared_as_dict ''6000'' shared_db = Inr (d, [])
          \<and> keys_of d = shared_titles shared_db)"
proof -
  have v5: "list_all is_digit ''6000''" by code_simp
  have l1: "list_all is_digit (db_version plain_db4)" unfolding plain_db4_def by code_simp
  have l2: "length (db_version plain_db4) = length ''6000''"
    unfolding plain_db4_def by code_simp
  have l3: "legacy_classified ''6000'' (db_version plain_db4)"
    unfolding plain_db4_def by code_simp
  have m1: "list_all is_digit (db_version shared_db)" unfolding shared_db_def by code_simp
  have m2: "length (db_version shared_db) = length ''6000''"
    unfolding shared_db_def by code_simp
  have m3: "\<not> legacy_classified ''6000'' (db_version shared_db)"
    unfolding shared_db_def by code_simp
  have m4: "details_complete shared_db" unfolding shared_db_def by code_simp
  have m5: "shared_titles shared_db = {PStr ''Family''}" unfolding shared_db_def by code_simp
  from shared_views_by_classification[OF v5 l1 l2] shared_views_by_classification[OF v5 m1 m2]
    v5 l1 l2 l3 m1 m2 m3 m4 m5
  show ?thesis by simp
qed

end
